theory Spec2Isabelle
  imports Complex_Main
begin

section \<open>Data model of the game engine\<close>

text \<open>
  The engine is the class \<^verbatim>\<open>GameEngine\<close>. A grid cell is \<^verbatim>\<open>null\<close> or a tile object
  \<^verbatim>\<open>{ value: v }\<close>; the grid is an array of rows. Coordinates are JavaScript numbers that
  leave the grid by one step (\<open>-1\<close> or \<open>gridSize\<close>), so they are integers here.
  The state is the fields of the engine that the core logic reads and writes, and the
  animation queue of the renderer as far as \<^verbatim>\<open>move\<close> fills it. Drawing, the message
  pop-ups, sound and the writes to storage are calls into collaborators that give nothing
  back to the engine; they are left out.
\<close>

type_synonym cell = "int option"

type_synonym grid = "cell list list"

record pos =
  row :: int
  col :: int

text \<open>The object \<^verbatim>\<open>{ farthest, next }\<close> returned by \<^verbatim>\<open>findFarthestPosition\<close>.\<close>

record positions =
  farthest :: pos
  nextp :: pos

record traversals =
  rows :: "int list"
  cols :: "int list"

text \<open>
  The entries the engine pushes on the renderer's animation queue (the time stamp and the
  duration of an entry are left out).
\<close>

datatype animation =
  MoveAnim int int int int int
| MergeAnim int int int

record snapshot =
  sgrid :: grid
  sscore :: int
  swon :: bool
  skeepPlaying :: bool

record game =
  grid :: grid
  score :: int
  bestScore :: int
  won :: bool
  keepPlaying :: bool
  gameHistory :: "snapshot list"
  undoCount :: int
  animations :: "animation list"

text \<open>The locals of one call of \<^verbatim>\<open>move\<close>, threaded through the two nested \<^verbatim>\<open>forEach\<close>.\<close>

record scan =
  eng :: game
  moved :: bool
  merged :: "bool list list"

text \<open>
  JavaScript numbers are IEEE 754 doubles, and \<^verbatim>\<open>*\<close> gives the exact product rounded to
  the nearest double, a tie going to the even significand. For \<open>0 \<le> x\<close> below the overflow
  threshold, \<open>ulp x\<close> is the distance between the doubles around \<open>x\<close>: \<open>2 ^ (e - 52)\<close> when
  \<open>2 ^ e \<le> x < 2 ^ (e + 1)\<close>, and \<open>2 ^ - 1074\<close> from the smallest normal exponent \<open>- 1022\<close>
  downwards. The exponent is found by halving (from 1 upwards) or doubling (below 1).
\<close>

definition roundHalfEven :: "real \<Rightarrow> int" where
  "roundHalfEven r =
     (let f = \<lfloor>r\<rfloor>; d = r - of_int f
      in if d < 1 / 2 then f else if 1 / 2 < d then f + 1 else if even f then f else f + 1)"

fun halvings :: "nat \<Rightarrow> real \<Rightarrow> nat" where
  "halvings 0 x = 0"
| "halvings (Suc k) x = (if x < 2 then 0 else Suc (halvings k (x / 2)))"

fun doublings :: "nat \<Rightarrow> real \<Rightarrow> nat" where
  "doublings 0 x = 0"
| "doublings (Suc k) x = (if 1 \<le> x then 0 else Suc (doublings k (2 * x)))"

definition ulp :: "real \<Rightarrow> real" where
  "ulp x = (if 1 \<le> x then 2 ^ halvings 1023 x / 2 ^ 52 else 1 / 2 ^ (52 + doublings 1022 x))"

definition roundDouble :: "real \<Rightarrow> real" where
  "roundDouble x = of_int (roundHalfEven (x / ulp x)) * ulp x"

text \<open>
  \<^verbatim>\<open>Math.random()\<close> returns a double that is at least 0 and less than 1; which one is an
  input. \<open>random\<close> is the type of these numbers, \<open>numberOf\<close> reads the number, and
  \<open>rand x\<close> is the result \<open>x\<close> when \<open>x\<close> is such a double (and 0 otherwise).
\<close>

definition isRandom :: "real \<Rightarrow> bool" where
  "isRandom x \<longleftrightarrow> 0 \<le> x \<and> x < 1 \<and> roundDouble x = x"

typedef random = "{x. isRandom x}"
  morphisms numberOf Random
  by (rule exI [of _ 0]) (simp add: isRandom_def roundDouble_def roundHalfEven_def)

definition rand :: "real \<Rightarrow> random" where
  "rand x = Random (if isRandom x then x else 0)"

text \<open>The two results of \<^verbatim>\<open>Math.random()\<close> that one \<^verbatim>\<open>addRandomTile\<close> consumes.\<close>

type_synonym rnd = "random \<times> random"

definition gridSize :: nat where
  "gridSize = 4"

section \<open>Grid access\<close>

definition getCell :: "grid \<Rightarrow> nat \<Rightarrow> nat \<Rightarrow> cell" where
  "getCell g r c = g ! r ! c"

definition setCell :: "'a list list \<Rightarrow> nat \<Rightarrow> nat \<Rightarrow> 'a \<Rightarrow> 'a list list" where
  "setCell g r c x = g[r := (g ! r)[c := x]]"

text \<open>
  \<^verbatim>\<open>this.grid[p.row]?.[p.col]\<close>: reading outside the arrays gives \<^verbatim>\<open>undefined\<close>,
  which is \<open>None\<close> here; a cell that exists is \<open>Some\<close> of its content.
\<close>

definition gridLookup :: "grid \<Rightarrow> pos \<Rightarrow> cell option" where
  "gridLookup g p =
     (if 0 \<le> row p \<and> nat (row p) < length g then
        (if 0 \<le> col p \<and> nat (col p) < length (g ! nat (row p))
         then Some (g ! nat (row p) ! nat (col p)) else None)
      else None)"

section \<open>resetGrid, addRandomTile\<close>

definition emptyGrid :: grid where
  "emptyGrid = map (\<lambda>r. map (\<lambda>c. None) [0..<gridSize]) [0..<gridSize]"

definition resetGrid :: "game \<Rightarrow> game" where
  "resetGrid s = s\<lparr>grid := emptyGrid, score := 0, won := False, keepPlaying := False,
                   gameHistory := [], undoCount := 5\<rparr>"

definition emptyCells :: "grid \<Rightarrow> pos list" where
  "emptyCells g =
     concat (map (\<lambda>r. concat (map (\<lambda>c. if getCell g r c = None
                                         then [\<lparr>row = int r, col = int c\<rparr>] else [])
                                   [0..<gridSize]))
                 [0..<gridSize])"

text \<open>
  \<^verbatim>\<open>Math.floor(Math.random() * emptyCells.length)\<close> floors the rounded product, and
  \<^verbatim>\<open>0.9\<close> is the double nearest to nine tenths. The index is below the length for every
  result of \<^verbatim>\<open>Math.random()\<close> (lemma \<open>random_index\<close>), so \<^verbatim>\<open>emptyCells[randomIndex]\<close> is
  always an element of the array.
\<close>

definition addRandomTile :: "rnd \<Rightarrow> game \<Rightarrow> bool \<times> game" where
  "addRandomTile rn s =
     (let es = emptyCells (grid s) in
      if length es = 0 then (False, s)
      else
        let randomIndex = \<lfloor>roundDouble (numberOf (fst rn) * real (length es))\<rfloor>;
            cell = es ! nat randomIndex;
            v = (if numberOf (snd rn) < roundDouble (9 / 10) then 2 else 4)
        in (True, s\<lparr>grid := setCell (grid s) (nat (row cell)) (nat (col cell)) (Some v)\<rparr>))"

section \<open>Vectors, traversal order, farthest position\<close>

text \<open>
  \<^verbatim>\<open>vectors[direction] || { row: 0, col: 0 }\<close>: the table is an object literal with the four
  directions as its own keys. The lookup also finds the properties that every object
  inherits from \<^verbatim>\<open>Object.prototype\<close>; their values are functions (an object for
  \<^verbatim>\<open>__proto__\<close>), so they are truthy and are returned as they are. Such a value has no
  \<^verbatim>\<open>row\<close> and no \<^verbatim>\<open>col\<close>: it is \<open>Inherited\<close> here, and reading either property of it
  gives \<^verbatim>\<open>undefined\<close> (\<open>None\<close>). Every other key is missing and gives the zero vector.
\<close>

datatype vec = Vector pos | Inherited

definition inheritedNames :: "string list" where
  "inheritedNames =
     [''constructor'', ''hasOwnProperty'', ''isPrototypeOf'', ''propertyIsEnumerable'',
      ''toLocaleString'', ''toString'', ''valueOf'', ''__proto__'',
      ''__defineGetter__'', ''__defineSetter__'', ''__lookupGetter__'', ''__lookupSetter__'']"

definition getVector :: "string \<Rightarrow> vec" where
  "getVector direction =
     (case map_of [(''up'', \<lparr>row = -1, col = 0\<rparr>),
                   (''down'', \<lparr>row = 1, col = 0\<rparr>),
                   (''left'', \<lparr>row = 0, col = -1\<rparr>),
                   (''right'', \<lparr>row = 0, col = 1\<rparr>)] direction of
        Some v \<Rightarrow> Vector v
      | None \<Rightarrow>
          if direction \<in> set inheritedNames then Inherited else Vector \<lparr>row = 0, col = 0\<rparr>)"

fun vrow :: "vec \<Rightarrow> int option" where
  "vrow (Vector v) = Some (row v)"
| "vrow Inherited = None"

fun vcol :: "vec \<Rightarrow> int option" where
  "vcol (Vector v) = Some (col v)"
| "vcol Inherited = None"

definition buildTraversals :: "vec \<Rightarrow> traversals" where
  "buildTraversals vector =
     (let rs = map int [0..<gridSize];
          cs = map int [0..<gridSize]
      in \<lparr>rows = (if vrow vector = Some 1 then rev rs else rs),
          cols = (if vcol vector = Some 1 then rev cs else cs)\<rparr>)"

definition withinBounds :: "pos \<Rightarrow> bool" where
  "withinBounds p \<longleftrightarrow>
     row p \<ge> 0 \<and> row p < int gridSize \<and> col p \<ge> 0 \<and> col p < int gridSize"

definition cellAvailable :: "grid \<Rightarrow> pos \<Rightarrow> bool" where
  "cellAvailable g p \<longleftrightarrow> getCell g (nat (row p)) (nat (col p)) = None"

text \<open>
  The \<^verbatim>\<open>while\<close> loop of \<^verbatim>\<open>findFarthestPosition\<close>, for a vector of numbers. With the zero
  vector and an empty start cell the loop never ends; that is the value \<open>None\<close>.
\<close>

partial_function (option) farthestLoop :: "grid \<Rightarrow> pos \<Rightarrow> pos \<Rightarrow> pos \<Rightarrow> positions option" where
  "farthestLoop g vector previous nx =
     (if withinBounds nx \<and> cellAvailable g nx
      then farthestLoop g vector nx \<lparr>row = row nx + row vector, col = col nx + col vector\<rparr>
      else Some \<lparr>farthest = previous, nextp = nx\<rparr>)"

definition findFarthestPosition :: "grid \<Rightarrow> pos \<Rightarrow> pos \<Rightarrow> positions option" where
  "findFarthestPosition g cell vector =
     farthestLoop g vector cell \<lparr>row = row cell + row vector, col = col cell + col vector\<rparr>"

section \<open>History\<close>

definition copyGrid :: "grid \<Rightarrow> grid" where
  "copyGrid g =
     map (\<lambda>r. map (\<lambda>c. case getCell g r c of Some v \<Rightarrow> Some v | None \<Rightarrow> None) [0..<gridSize])
         [0..<gridSize]"

definition takeSnapshot :: "game \<Rightarrow> snapshot" where
  "takeSnapshot s =
     \<lparr>sgrid = copyGrid (grid s), sscore = score s, swon = won s, skeepPlaying = keepPlaying s\<rparr>"

definition saveGameState :: "game \<Rightarrow> game" where
  "saveGameState s =
     (let h = gameHistory s @ [takeSnapshot s]
      in s\<lparr>gameHistory := (if length h > 5 then tl h else h)\<rparr>)"

definition undo :: "game \<Rightarrow> bool \<times> game" where
  "undo s =
     (if length (gameHistory s) = 0 then (False, s)
      else if undoCount s \<le> 0 then (False, s)
      else
        let previousState = last (gameHistory s)
        in (True, s\<lparr>gameHistory := butlast (gameHistory s),
                     grid := copyGrid (sgrid previousState),
                     score := sscore previousState,
                     won := swon previousState,
                     keepPlaying := skeepPlaying previousState,
                     undoCount := undoCount s - 1\<rparr>))"

section \<open>Game state checks\<close>

definition movesAvailable :: "grid \<Rightarrow> bool" where
  "movesAvailable g \<longleftrightarrow>
     (\<exists>r \<in> set [0..<gridSize]. \<exists>c \<in> set [0..<gridSize]. getCell g r c = None) \<or>
     (\<exists>r \<in> set [0..<gridSize]. \<exists>c \<in> set [0..<gridSize].
        (case getCell g r c of
           None \<Rightarrow> False
         | Some v \<Rightarrow>
             (c < gridSize - 1 \<and> getCell g r (c + 1) = Some v) \<or>
             (r < gridSize - 1 \<and> getCell g (r + 1) c = Some v)))"

definition hasWon :: "grid \<Rightarrow> bool" where
  "hasWon g \<longleftrightarrow> (\<exists>r \<in> set [0..<gridSize]. \<exists>c \<in> set [0..<gridSize]. getCell g r c = Some 2048)"

definition checkGameState :: "game \<Rightarrow> game" where
  "checkGameState s = (if \<not> won s \<and> hasWon (grid s) then s\<lparr>won := True\<rparr> else s)"

section \<open>move\<close>

definition updateScore :: "int \<Rightarrow> game \<Rightarrow> game" where
  "updateScore points s =
     (let s1 = s\<lparr>score := score s + points\<rparr>
      in if score s1 > bestScore s1 then s1\<lparr>bestScore := score s1\<rparr> else s1)"

text \<open>A \<^verbatim>\<open>forEach\<close> whose body may fail to return.\<close>

fun forEach :: "('a \<Rightarrow> 's \<Rightarrow> 's option) \<Rightarrow> 'a list \<Rightarrow> 's \<Rightarrow> 's option" where
  "forEach f [] s = Some s"
| "forEach f (x # xs) s = (case f x s of None \<Rightarrow> None | Some s' \<Rightarrow> forEach f xs s')"

text \<open>
  The body of the inner \<^verbatim>\<open>forEach\<close> of \<^verbatim>\<open>move\<close>, for the cell \<open>(r, c)\<close>. With a value
  that is no vector, \<^verbatim>\<open>findFarthestPosition\<close> adds \<^verbatim>\<open>undefined\<close> to the coordinates:
  \<^verbatim>\<open>next\<close> is \<^verbatim>\<open>{ row: NaN, col: NaN }\<close>, \<^verbatim>\<open>withinBounds(next)\<close> is false, so the loop does
  not run and \<^verbatim>\<open>farthest\<close> is the cell itself; \<^verbatim>\<open>this.grid[NaN]\<close> is \<^verbatim>\<open>undefined\<close>, so
  there is nothing to merge with, and the tile stays where it is.
\<close>

definition moveCell :: "vec \<Rightarrow> int \<Rightarrow> int \<Rightarrow> scan \<Rightarrow> scan option" where
  "moveCell vector r c sc =
     (let g = grid (eng sc) in
      case getCell g (nat r) (nat c) of
        None \<Rightarrow> Some sc
      | Some tv \<Rightarrow>
          (case vector of
             Inherited \<Rightarrow> Some sc
           | Vector v \<Rightarrow>
               (case findFarthestPosition g \<lparr>row = r, col = c\<rparr> v of
                  None \<Rightarrow> None
                | Some ps \<Rightarrow>
                    let nr = nat (row (nextp ps)); nc = nat (col (nextp ps)) in
                    if (case gridLookup g (nextp ps) of
                          Some (Some nv) \<Rightarrow> nv = tv \<and> \<not> merged sc ! nr ! nc
                        | _ \<Rightarrow> False)
                    then
                      let mergedValue = tv * 2;
                          g1 = setCell g nr nc (Some mergedValue);
                          g2 = setCell g1 (nat r) (nat c) None;
                          e1 = updateScore mergedValue ((eng sc)\<lparr>grid := g2\<rparr>);
                          e2 = e1\<lparr>animations := animations e1 @
                                 [MoveAnim r c (row (nextp ps)) (col (nextp ps)) tv,
                                  MergeAnim (row (nextp ps)) (col (nextp ps)) mergedValue]\<rparr>
                      in Some \<lparr>eng = e2, moved = True, merged = setCell (merged sc) nr nc True\<rparr>
                    else if row (farthest ps) \<noteq> r \<or> col (farthest ps) \<noteq> c then
                      let fr = nat (row (farthest ps)); fc = nat (col (farthest ps));
                          g1 = setCell g fr fc (Some tv);
                          g2 = setCell g1 (nat r) (nat c) None;
                          e1 = (eng sc)\<lparr>grid := g2,
                                 animations := animations (eng sc) @
                                   [MoveAnim r c (row (farthest ps)) (col (farthest ps)) tv]\<rparr>
                      in Some (sc\<lparr>eng := e1, moved := True\<rparr>)
                    else Some sc)))"

definition moveRow :: "vec \<Rightarrow> int list \<Rightarrow> int \<Rightarrow> scan \<Rightarrow> scan option" where
  "moveRow vector cs r sc = forEach (\<lambda>c. moveCell vector r c) cs sc"

text \<open>The part of \<^verbatim>\<open>move\<close> before \<^verbatim>\<open>if (moved)\<close>: the state saved, the grid scanned.\<close>

definition scanGrid :: "string \<Rightarrow> game \<Rightarrow> scan option" where
  "scanGrid direction s =
     (let s1 = saveGameState (s\<lparr>animations := []\<rparr>);
          vector = getVector direction;
          tr = buildTraversals vector
      in forEach (moveRow vector (cols tr)) (rows tr)
           \<lparr>eng = s1, moved = False,
            merged = map (\<lambda>r. map (\<lambda>c. False) [0..<gridSize]) [0..<gridSize]\<rparr>)"

definition move :: "string \<Rightarrow> rnd \<Rightarrow> game \<Rightarrow> (bool \<times> game) option" where
  "move direction rn s =
     (case scanGrid direction s of
        None \<Rightarrow> None
      | Some sc \<Rightarrow>
          if moved sc then Some (True, checkGameState (snd (addRandomTile rn (eng sc))))
          else Some (False, (eng sc)\<lparr>gameHistory := butlast (gameHistory (eng sc))\<rparr>))"

section \<open>init, restart\<close>

text \<open>
  \<^verbatim>\<open>loadBestScore\<close> takes the number that \<^verbatim>\<open>parseInt(...) || 0\<close> makes of the stored
  string (0 when nothing is stored or reading fails); it is an input here.
\<close>

definition loadBestScore :: "int \<Rightarrow> game \<Rightarrow> game" where
  "loadBestScore saved s = s\<lparr>bestScore := saved\<rparr>"

definition init :: "int \<Rightarrow> rnd \<Rightarrow> rnd \<Rightarrow> game \<Rightarrow> game" where
  "init saved rn1 rn2 s =
     snd (addRandomTile rn2 (snd (addRandomTile rn1 (resetGrid (loadBestScore saved s)))))"

definition restart :: "int \<Rightarrow> rnd \<Rightarrow> rnd \<Rightarrow> game \<Rightarrow> game" where
  "restart saved rn1 rn2 s = init saved rn1 rn2 s"

section \<open>Well-formed grids and the predicates of the specification\<close>

text \<open>
  \<^verbatim>\<open>resetGrid\<close> builds a grid of \<open>gridSize\<close> rows of \<open>gridSize\<close> cells, and no operation
  of the engine changes the shape of the arrays.
\<close>

definition wfGrid :: "'a list list \<Rightarrow> bool" where
  "wfGrid g \<longleftrightarrow> length g = gridSize \<and> (\<forall>rw \<in> set g. length rw = gridSize)"

text \<open>The two conditions of game-over detection, as the specification words them.\<close>

definition noEmptyCell :: "grid \<Rightarrow> bool" where
  "noEmptyCell g \<longleftrightarrow>
     (\<forall>r \<in> set [0..<gridSize]. \<forall>c \<in> set [0..<gridSize]. getCell g r c \<noteq> None)"

definition adjacent :: "nat \<times> nat \<Rightarrow> nat \<times> nat \<Rightarrow> bool" where
  "adjacent p q \<longleftrightarrow>
     (fst p = fst q \<and> (snd p + 1 = snd q \<or> snd q + 1 = snd p)) \<or>
     (snd p = snd q \<and> (fst p + 1 = fst q \<or> fst q + 1 = fst p))"

definition equalNeighbours :: "grid \<Rightarrow> bool" where
  "equalNeighbours g \<longleftrightarrow>
     (\<exists>r \<in> set [0..<gridSize]. \<exists>c \<in> set [0..<gridSize].
      \<exists>r' \<in> set [0..<gridSize]. \<exists>c' \<in> set [0..<gridSize].
        adjacent (r, c) (r', c') \<and> getCell g r c \<noteq> None \<and> getCell g r c = getCell g r' c')"

text \<open>
  The browser variant of the check, \<^verbatim>\<open>movesAvailable\<close> of \<^verbatim>\<open>script.js\<close>: one pass over the
  cells, an empty cell or an equal neighbour on any of the four sides ends it.
\<close>

definition movesAvailableScript :: "grid \<Rightarrow> bool" where
  "movesAvailableScript g \<longleftrightarrow>
     (\<exists>r \<in> set [0..<gridSize]. \<exists>c \<in> set [0..<gridSize].
        (case getCell g r c of
           None \<Rightarrow> True
         | Some current \<Rightarrow>
             (\<exists>n \<in> set [\<lparr>row = int r - 1, col = int c\<rparr>, \<lparr>row = int r + 1, col = int c\<rparr>,
                         \<lparr>row = int r, col = int c - 1\<rparr>, \<lparr>row = int r, col = int c + 1\<rparr>].
                withinBounds n \<and> getCell g (nat (row n)) (nat (col n)) = Some current)))"

text \<open>The four directions of the input layer, and a bound on the steps of the loop.\<close>

definition legalDirection :: "string \<Rightarrow> bool" where
  "legalDirection d \<longleftrightarrow> d \<in> set [''up'', ''down'', ''left'', ''right'']"

definition legalVector :: "pos \<Rightarrow> bool" where
  "legalVector v \<longleftrightarrow>
     v \<in> set [\<lparr>row = -1, col = 0\<rparr>, \<lparr>row = 1, col = 0\<rparr>, \<lparr>row = 0, col = -1\<rparr>, \<lparr>row = 0, col = 1\<rparr>]"

definition stepsLeft :: "pos \<Rightarrow> pos \<Rightarrow> nat" where
  "stepsLeft v p =
     (if row v = 1 then nat (int gridSize - row p)
      else if row v = -1 then nat (row p + 1)
      else if col v = 1 then nat (int gridSize - col p)
      else nat (col p + 1))"

text \<open>All positions of the grid, in the order in which \<^verbatim>\<open>addRandomTile\<close> visits them.\<close>

definition allCells :: "pos list" where
  "allCells = concat (map (\<lambda>r. map (\<lambda>c. \<lparr>row = int r, col = int c\<rparr>) [0..<gridSize]) [0..<gridSize])"

text \<open>The number of occupied cells, and the number of merges among the queued animations.\<close>

definition occ :: "cell \<Rightarrow> nat" where
  "occ x = (if x = None then 0 else 1)"

definition tileCount :: "grid \<Rightarrow> nat" where
  "tileCount g = (\<Sum>r\<leftarrow>[0..<gridSize]. \<Sum>c\<leftarrow>[0..<gridSize]. occ (getCell g r c))"

definition tileValue :: "cell \<Rightarrow> int" where
  "tileValue x = (case x of None \<Rightarrow> 0 | Some v \<Rightarrow> v)"

definition tileSum :: "grid \<Rightarrow> int" where
  "tileSum g = (\<Sum>r\<leftarrow>[0..<gridSize]. \<Sum>c\<leftarrow>[0..<gridSize]. tileValue (getCell g r c))"

text \<open>
  The invariant of a scan with the zero vector, from the state \<open>s\<close>: a marked cell is empty,
  the score has grown by twice the value of the tiles that are gone, and a tile is gone
  exactly when \<open>moved\<close> is set.
\<close>

definition wiped :: "game \<Rightarrow> scan \<Rightarrow> bool" where
  "wiped s a \<longleftrightarrow>
     (wfGrid (grid (eng a)) \<and> wfGrid (merged a)) \<and>
     (\<forall>r < gridSize. \<forall>c < gridSize. merged a ! r ! c \<longrightarrow> getCell (grid (eng a)) r c = None) \<and>
     score (eng a) + 2 * tileSum (grid (eng a)) = score s + 2 * tileSum (grid s) \<and>
     tileCount (grid (eng a)) \<le> tileCount (grid s) \<and>
     (moved a \<longleftrightarrow> tileCount (grid (eng a)) < tileCount (grid s))"

definition mergeCount :: "animation list \<Rightarrow> nat" where
  "mergeCount as = length (filter (\<lambda>a. case a of MergeAnim _ _ _ \<Rightarrow> True | _ \<Rightarrow> False) as)"

text \<open>
  A play: the moves are made one after the other, whatever they return. The result lists
  the state before each move with what the move returned, and gives the final state.
  \<open>successes\<close> are the states before the moves that returned \<open>True\<close>.
\<close>

fun playMoves :: "(string \<times> rnd) list \<Rightarrow> game \<Rightarrow> ((game \<times> bool) list \<times> game) option" where
  "playMoves [] s = Some ([], s)"
| "playMoves (m # ms) s =
     (case move (fst m) (snd m) s of
        None \<Rightarrow> None
      | Some (b, s') \<Rightarrow>
          (case playMoves ms s' of
             None \<Rightarrow> None
           | Some (tr, t) \<Rightarrow> Some ((s, b) # tr, t)))"

definition successes :: "(game \<times> bool) list \<Rightarrow> game list" where
  "successes tr = map fst (filter snd tr)"

definition lastN :: "nat \<Rightarrow> 'a list \<Rightarrow> 'a list" where
  "lastN n xs = drop (length xs - n) xs"

definition historyOf :: "snapshot list \<Rightarrow> snapshot list \<Rightarrow> bool" where
  "historyOf h A \<longleftrightarrow> h = lastN 5 A \<or> (h = lastN 4 A \<and> 5 \<le> length A)"

text \<open>
  Views of one row and of one column of the scan state (is the state well formed, the
  cells of the line, its merged marks), a column of a grid, the cells that received a merge
  according to the queued animations, and the invariant that ties them to the marks.
\<close>

definition rowView :: "nat \<Rightarrow> scan \<Rightarrow> bool \<times> cell list \<times> bool list" where
  "rowView r a = (wfGrid (grid (eng a)) \<and> wfGrid (merged a), grid (eng a) ! r, merged a ! r)"

definition colView :: "nat \<Rightarrow> scan \<Rightarrow> bool \<times> cell list \<times> bool list" where
  "colView c a = (wfGrid (grid (eng a)) \<and> wfGrid (merged a),
                  map (\<lambda>k. grid (eng a) ! k ! c) [0..<gridSize],
                  map (\<lambda>k. merged a ! k ! c) [0..<gridSize])"

definition column :: "'a list list \<Rightarrow> nat \<Rightarrow> 'a list" where
  "column g c = map (\<lambda>rw. rw ! c) g"

fun mergeTargets :: "animation list \<Rightarrow> (int \<times> int) list" where
  "mergeTargets [] = []"
| "mergeTargets (MergeAnim r c v # as) = (r, c) # mergeTargets as"
| "mergeTargets (MoveAnim r c r' c' v # as) = mergeTargets as"

definition marksCover :: "scan \<Rightarrow> bool" where
  "marksCover a \<longleftrightarrow>
     distinct (mergeTargets (animations (eng a))) \<and>
     (\<forall>p \<in> set (mergeTargets (animations (eng a))).
        0 \<le> fst p \<and> 0 \<le> snd p \<and> merged a ! nat (fst p) ! nat (snd p))"

text \<open>
  Does a tile leave a cell that took a merge earlier in the same list of animations (the
  set holds the merge cells met so far)? Then the two notions of the proof that it never
  does: a position lies ahead of a cell in the direction of the move, and a cell was
  visited, given the rows done, the current row and the columns done in it.
\<close>

fun reusedTarget :: "(int \<times> int) set \<Rightarrow> animation list \<Rightarrow> bool" where
  "reusedTarget S [] \<longleftrightarrow> False"
| "reusedTarget S (MergeAnim r c v # as) \<longleftrightarrow> reusedTarget (insert (r, c) S) as"
| "reusedTarget S (MoveAnim r c r' c' v # as) \<longleftrightarrow> (r, c) \<in> S \<or> reusedTarget S as"

definition ahead :: "pos \<Rightarrow> pos \<Rightarrow> pos \<Rightarrow> bool" where
  "ahead v cell p \<longleftrightarrow>
     (row v = 0 \<longrightarrow> row p = row cell) \<and> (col v = 0 \<longrightarrow> col p = col cell) \<and>
     0 < (row p - row cell) * row v + (col p - col cell) * col v"

definition seen :: "int list \<Rightarrow> int \<Rightarrow> int list \<Rightarrow> int \<times> int \<Rightarrow> bool" where
  "seen rpre x cpre p \<longleftrightarrow>
     (fst p \<in> set rpre \<and> 0 \<le> snd p \<and> snd p < 4) \<or> (fst p = x \<and> snd p \<in> set cpre)"

definition targetsSeen :: "(int \<times> int \<Rightarrow> bool) \<Rightarrow> scan \<Rightarrow> bool" where
  "targetsSeen S a \<longleftrightarrow>
     (wfGrid (grid (eng a)) \<and> wfGrid (merged a)) \<and>
     (\<forall>p \<in> set (mergeTargets (animations (eng a))). S p) \<and>
     \<not> reusedTarget {} (animations (eng a))"

section \<open>Example states\<close>

definition rowGrid :: grid where
  "rowGrid = [[Some 2, Some 2, Some 2, Some 2],
              [None, Some 4, None, Some 4],
              [None, None, None, None],
              [Some 2, None, None, None]]"

definition cornerGrid :: grid where
  "cornerGrid = [[Some 2, None, None, None],
                 [None, None, None, None],
                 [None, None, None, None],
                 [None, None, None, None]]"

definition fullGrid :: grid where
  "fullGrid = [[Some 2, Some 4, Some 2, Some 4],
               [Some 4, Some 2, Some 4, Some 2],
               [Some 2, Some 4, Some 2, Some 4],
               [Some 4, Some 2, Some 4, Some 2]]"

definition gapGrid :: grid where
  "gapGrid = [[None, Some 4, Some 2, Some 4],
              [Some 4, None, Some 4, Some 2],
              [Some 2, Some 4, None, Some 4],
              [Some 4, Some 2, Some 4, Some 2]]"

text \<open>The result of \<^verbatim>\<open>Math.random()\<close> that JavaScript prints as \<^verbatim>\<open>0.6666666666666666\<close>.\<close>

definition twoThirds :: random where
  "twoThirds = rand (6004799503160661 / 9007199254740992)"

definition gameOf :: "grid \<Rightarrow> snapshot list \<Rightarrow> game" where
  "gameOf g h = \<lparr>grid = g, score = 0, bestScore = 0, won = False, keepPlaying = False,
                 gameHistory = h, undoCount = 5, animations = []\<rparr>"

definition snapOf :: "grid \<Rightarrow> snapshot" where
  "snapOf g = \<lparr>sgrid = g, sscore = 0, swon = False, skeepPlaying = False\<rparr>"

definition colGrid :: grid where
  "colGrid = [[Some 2, None, None, None],
              [Some 2, Some 4, None, None],
              [Some 2, None, None, None],
              [Some 2, None, None, Some 4]]"

definition topRow :: "cell list \<Rightarrow> grid" where
  "topRow rw = [rw, [None, None, None, None], [None, None, None, None], [None, None, None, None]]"

definition samplePlay :: "(string \<times> rnd) list" where
  "samplePlay =
     [(''right'', (rand 0, rand 0)), (''left'', (rand 0, rand 0)), (''right'', (rand 0, rand 0)),
      (''left'', (rand 0, rand 0)), (''left'', (rand 0, rand 0)), (''up'', (rand 0, rand 0)),
      (''right'', (rand 0, rand 0))]"

text \<open>The sample play with one more move, to the left, at the end.\<close>

definition stalledPlay :: "(string \<times> rnd) list" where
  "stalledPlay = samplePlay @ [(''left'', (rand 0, rand 0))]"

definition stuckGame :: game where
  "stuckGame =
     \<lparr>grid = topRow [Some 2, Some 8, Some 4, Some 2],
      score = 20, bestScore = 20, won = False, keepPlaying = False,
      gameHistory =
        [\<lparr>sgrid = topRow [Some 2, None, None, Some 4], sscore = 4, swon = False,
          skeepPlaying = False\<rparr>,
         \<lparr>sgrid = topRow [Some 2, Some 4, Some 2, None], sscore = 4, swon = False,
          skeepPlaying = False\<rparr>,
         \<lparr>sgrid = topRow [Some 2, Some 2, Some 4, Some 2], sscore = 4, swon = False,
          skeepPlaying = False\<rparr>,
         \<lparr>sgrid = topRow [Some 4, Some 4, Some 2, Some 2], sscore = 8, swon = False,
          skeepPlaying = False\<rparr>,
         \<lparr>sgrid = topRow [Some 8, Some 4, Some 2, None], sscore = 20, swon = False,
          skeepPlaying = False\<rparr>],
      undoCount = 5,
      animations = [MoveAnim 0 2 0 3 2, MoveAnim 0 1 0 2 4, MoveAnim 0 0 0 1 8]\<rparr>"

section \<open>Grid lemmas\<close>

lemma upt_4: "[0..<4] = [0, 1, 2, 3::nat]"
  by (simp add: upt_rec)

lemma wfGrid_iff:
  "wfGrid g \<longleftrightarrow> length g = gridSize \<and> (\<forall>r < gridSize. length (g ! r) = gridSize)"
  by (auto simp: wfGrid_def all_set_conv_all_nth)

lemma wfGrid_nth: "wfGrid g \<Longrightarrow> r < gridSize \<Longrightarrow> length (g ! r) = gridSize"
  by (simp add: wfGrid_iff)

lemma wfGrid_setCell: "wfGrid g \<Longrightarrow> wfGrid (setCell g r c x)"
  by (cases "r < length g") (auto simp: wfGrid_iff setCell_def nth_list_update)

lemma wfGrid_emptyGrid: "wfGrid emptyGrid"
  by (simp add: wfGrid_iff emptyGrid_def)

lemma map_nth_upt: "length xs = n \<Longrightarrow> map (\<lambda>i. xs ! i) [0..<n] = xs"
  by (auto simp: list_eq_iff_nth_eq)

lemma copyGrid_id: "wfGrid g \<Longrightarrow> copyGrid g = g"
  by (auto simp: wfGrid_iff copyGrid_def getCell_def list_eq_iff_nth_eq split: option.splits)

lemma wfGrid_copyGrid: "wfGrid (copyGrid g)"
  by (simp add: wfGrid_iff copyGrid_def)

lemma getCell_setCell:
  "r < length g \<Longrightarrow> c < length (g ! r) \<Longrightarrow>
   getCell (setCell g r c x) r' c' = (if r' = r \<and> c' = c then x else getCell g r' c')"
  by (auto simp: getCell_def setCell_def nth_list_update)

lemma getCell_setCell_wf:
  "wfGrid g \<Longrightarrow> r < gridSize \<Longrightarrow> c < gridSize \<Longrightarrow>
   getCell (setCell g r c x) r' c' = (if r' = r \<and> c' = c then x else getCell g r' c')"
  by (simp add: getCell_setCell wfGrid_iff)

section \<open>Undo and restart\<close>

text \<open>
  C8: \<^verbatim>\<open>undo\<close> returns \<open>False\<close> and leaves the whole state as it is when the history is
  empty or no undo is left; otherwise it removes the most recent snapshot, takes grid,
  score, won and keepPlaying from it and lowers \<open>undoCount\<close> by one. \<^verbatim>\<open>restart\<close> sets
  \<open>undoCount\<close> to 5 and empties the history.
\<close>

theorem undo_restart_contract:
  "(gameHistory s = [] \<or> undoCount s \<le> 0 \<longrightarrow> undo s = (False, s)) \<and>
   (gameHistory s \<noteq> [] \<and> 0 < undoCount s \<and> wfGrid (sgrid (last (gameHistory s))) \<longrightarrow>
      undo s = (True, s\<lparr>gameHistory := butlast (gameHistory s),
                        grid := sgrid (last (gameHistory s)),
                        score := sscore (last (gameHistory s)),
                        won := swon (last (gameHistory s)),
                        keepPlaying := skeepPlaying (last (gameHistory s)),
                        undoCount := undoCount s - 1\<rparr>)) \<and>
   undoCount (restart saved rn1 rn2 s) = 5 \<and> gameHistory (restart saved rn1 rn2 s) = []"
  by (auto simp: undo_def copyGrid_id restart_def init_def addRandomTile_def resetGrid_def
      loadBestScore_def Let_def)


theorem undo_restart_contract_witness:
  "undo (gameOf cornerGrid [snapOf rowGrid]) = (True, (gameOf rowGrid [])\<lparr>undoCount := 4\<rparr>) \<and>
   undo (gameOf cornerGrid []) = (False, gameOf cornerGrid []) \<and>
   undo ((gameOf cornerGrid [snapOf rowGrid])\<lparr>undoCount := 0\<rparr>) =
     (False, (gameOf cornerGrid [snapOf rowGrid])\<lparr>undoCount := 0\<rparr>)"
  using undo_restart_contract [of "gameOf cornerGrid [snapOf rowGrid]"]
        undo_restart_contract [of "gameOf cornerGrid []"]
        undo_restart_contract [of "(gameOf cornerGrid [snapOf rowGrid])\<lparr>undoCount := 0\<rparr>"]
  by (simp add: gameOf_def snapOf_def rowGrid_def wfGrid_iff gridSize_def nth_Cons')

section \<open>Game-over detection\<close>

lemma movesAvailable_imp: 
  assumes "movesAvailable g" shows "\<not> noEmptyCell g \<or> equalNeighbours g"
proof (cases "noEmptyCell g")
  case True
  from assms True have
    "\<exists>r \<in> set [0..<gridSize]. \<exists>c \<in> set [0..<gridSize].
        (case getCell g r c of
           None \<Rightarrow> False
         | Some v \<Rightarrow>
             (c < gridSize - 1 \<and> getCell g r (c + 1) = Some v) \<or>
             (r < gridSize - 1 \<and> getCell g (r + 1) c = Some v))"
    unfolding movesAvailable_def noEmptyCell_def by blast
  then obtain r c where rc0: "r \<in> set [0..<gridSize]" "c \<in> set [0..<gridSize]"
    and cs: "case getCell g r c of
           None \<Rightarrow> False
         | Some v \<Rightarrow>
             (c < gridSize - 1 \<and> getCell g r (c + 1) = Some v) \<or>
             (r < gridSize - 1 \<and> getCell g (r + 1) c = Some v)"
    by blast
  from cs obtain v where v: "getCell g r c = Some v"
    and nb: "(c < gridSize - 1 \<and> getCell g r (c + 1) = Some v) \<or>
             (r < gridSize - 1 \<and> getCell g (r + 1) c = Some v)"
    by (cases "getCell g r c") auto
  from rc0 v have rc: "r < gridSize" "c < gridSize" "getCell g r c = Some v" by auto
  from nb show ?thesis
  proof
    assume "c < gridSize - 1 \<and> getCell g r (c + 1) = Some v"
    with rc have "adjacent (r, c) (r, c + 1)" "c + 1 < gridSize" "getCell g r c = getCell g r (c + 1)"
      by (auto simp: adjacent_def)
    with rc show ?thesis unfolding equalNeighbours_def by fastforce
  next
    assume "r < gridSize - 1 \<and> getCell g (r + 1) c = Some v"
    with rc have "adjacent (r, c) (r + 1, c)" "r + 1 < gridSize" "getCell g r c = getCell g (r + 1) c"
      by (auto simp: adjacent_def)
    with rc show ?thesis unfolding equalNeighbours_def by fastforce
  qed
qed simp

lemma equalNeighbours_imp:
  assumes "equalNeighbours g" shows "movesAvailable g"
proof -
  from assms obtain r c r' c' where b0: "r \<in> set [0..<gridSize]" "c \<in> set [0..<gridSize]"
      "r' \<in> set [0..<gridSize]" "c' \<in> set [0..<gridSize]"
    and adj: "adjacent (r, c) (r', c')" and ne: "getCell g r c \<noteq> None"
    and eq: "getCell g r c = getCell g r' c'"
    unfolding equalNeighbours_def by blast
  from b0 have b: "r < gridSize" "c < gridSize" "r' < gridSize" "c' < gridSize" by auto
  from ne obtain v where v: "getCell g r c = Some v" by auto
  from adj consider "r = r'" "c + 1 = c'" | "r = r'" "c' + 1 = c" | "c = c'" "r + 1 = r'" | "c = c'" "r' + 1 = r"
    by (auto simp: adjacent_def)
  then show ?thesis
  proof cases
    case 1
    with b v eq have "c < gridSize - 1 \<and> getCell g r (c + 1) = Some v" by auto
    with b v show ?thesis unfolding movesAvailable_def by force
  next
    case 2
    with b v eq have "getCell g r' c' = Some v" "c' < gridSize - 1 \<and> getCell g r' (c' + 1) = Some v" by auto
    with b show ?thesis unfolding movesAvailable_def by force
  next
    case 3
    with b v eq have "r < gridSize - 1 \<and> getCell g (r + 1) c = Some v" by auto
    with b v show ?thesis unfolding movesAvailable_def by force
  next
    case 4
    with b v eq have "getCell g r' c' = Some v" "r' < gridSize - 1 \<and> getCell g (r' + 1) c' = Some v" by auto
    with b show ?thesis unfolding movesAvailable_def by force
  qed
qed

lemma empty_imp_movesAvailable: "\<not> noEmptyCell g \<Longrightarrow> movesAvailable g"
  by (auto simp: noEmptyCell_def movesAvailable_def)

lemma movesAvailableScript_imp:
  assumes "movesAvailableScript g" shows "\<not> noEmptyCell g \<or> equalNeighbours g"
proof (cases "noEmptyCell g")
  case True
  from assms obtain r c where rc0: "r \<in> set [0..<gridSize]" "c \<in> set [0..<gridSize]"
    and cs: "case getCell g r c of
           None \<Rightarrow> True
         | Some current \<Rightarrow>
             (\<exists>n \<in> set [\<lparr>row = int r - 1, col = int c\<rparr>, \<lparr>row = int r + 1, col = int c\<rparr>,
                         \<lparr>row = int r, col = int c - 1\<rparr>, \<lparr>row = int r, col = int c + 1\<rparr>].
                withinBounds n \<and> getCell g (nat (row n)) (nat (col n)) = Some current)"
    unfolding movesAvailableScript_def by blast
  from rc0 have rc: "r < gridSize" "c < gridSize" by auto
  from True rc0 have "getCell g r c \<noteq> None" unfolding noEmptyCell_def by blast
  then obtain v where v: "getCell g r c = Some v" by auto
  from cs v have "\<exists>n \<in> set [\<lparr>row = int r - 1, col = int c\<rparr>, \<lparr>row = int r + 1, col = int c\<rparr>,
                         \<lparr>row = int r, col = int c - 1\<rparr>, \<lparr>row = int r, col = int c + 1\<rparr>].
                withinBounds n \<and> getCell g (nat (row n)) (nat (col n)) = Some v" by simp
  then obtain n where n: "n \<in> set [\<lparr>row = int r - 1, col = int c\<rparr>, \<lparr>row = int r + 1, col = int c\<rparr>,
                         \<lparr>row = int r, col = int c - 1\<rparr>, \<lparr>row = int r, col = int c + 1\<rparr>]"
    "withinBounds n" "getCell g (nat (row n)) (nat (col n)) = Some v" by blast
  from n(1) consider "n = \<lparr>row = int r - 1, col = int c\<rparr>" | "n = \<lparr>row = int r + 1, col = int c\<rparr>"
    | "n = \<lparr>row = int r, col = int c - 1\<rparr>" | "n = \<lparr>row = int r, col = int c + 1\<rparr>"
    by auto
  then have "adjacent (r, c) (nat (row n), nat (col n)) \<and> nat (row n) < gridSize \<and>
    nat (col n) < gridSize"
  proof cases
    case 1 with n(2) rc show ?thesis by (simp add: adjacent_def withinBounds_def) arith
  next
    case 2 with n(2) rc show ?thesis by (simp add: adjacent_def withinBounds_def) arith
  next
    case 3 with n(2) rc show ?thesis by (simp add: adjacent_def withinBounds_def) arith
  next
    case 4 with n(2) rc show ?thesis by (simp add: adjacent_def withinBounds_def) arith
  qed
  with rc0 v n(3) have "equalNeighbours g" unfolding equalNeighbours_def
    by (intro bexI [of _ r] bexI [of _ c] bexI [of _ "nat (row n)"] bexI [of _ "nat (col n)"]) auto
  then show ?thesis ..
qed simp

lemma movesAvailableScript_iff: "movesAvailableScript g \<longleftrightarrow> movesAvailable g"
proof
  assume "movesAvailableScript g"
  from movesAvailableScript_imp [OF this] show "movesAvailable g"
    using equalNeighbours_imp empty_imp_movesAvailable by blast
next
  assume "movesAvailable g"
  from movesAvailable_imp [OF this] show "movesAvailableScript g"
  proof
    assume "\<not> noEmptyCell g"
    then obtain r c where "r \<in> set [0..<gridSize]" "c \<in> set [0..<gridSize]"
      "getCell g r c = None" unfolding noEmptyCell_def by blast
    then show ?thesis unfolding movesAvailableScript_def by force
  next
    assume "equalNeighbours g"
    then obtain r c r' c' where b0: "r \<in> set [0..<gridSize]" "c \<in> set [0..<gridSize]"
      "r' \<in> set [0..<gridSize]" "c' \<in> set [0..<gridSize]"
      and adj: "adjacent (r, c) (r', c')" and ne: "getCell g r c \<noteq> None"
      and eq: "getCell g r c = getCell g r' c'"
      unfolding equalNeighbours_def by blast
    from ne obtain v where v: "getCell g r c = Some v" by auto
    from b0 have b: "r < gridSize" "c < gridSize" "r' < gridSize" "c' < gridSize" by auto
    let ?n = "\<lparr>row = int r', col = int c'\<rparr>"
    from adj have "?n \<in> set [\<lparr>row = int r - 1, col = int c\<rparr>, \<lparr>row = int r + 1, col = int c\<rparr>,
                         \<lparr>row = int r, col = int c - 1\<rparr>, \<lparr>row = int r, col = int c + 1\<rparr>]"
      by (auto simp: adjacent_def)
    moreover from b have "withinBounds ?n" by (simp add: withinBounds_def)
    moreover from v eq have "getCell g (nat (row ?n)) (nat (col ?n)) = Some v" by simp
    ultimately have "\<exists>n \<in> set [\<lparr>row = int r - 1, col = int c\<rparr>, \<lparr>row = int r + 1, col = int c\<rparr>,
                         \<lparr>row = int r, col = int c - 1\<rparr>, \<lparr>row = int r, col = int c + 1\<rparr>].
                withinBounds n \<and> getCell g (nat (row n)) (nat (col n)) = Some v" by blast
    with v b0(1,2) show ?thesis unfolding movesAvailableScript_def by force
  qed
qed

text \<open>
  C5: \<^verbatim>\<open>movesAvailable\<close> is false exactly when no cell is empty and no two orthogonally
  adjacent cells hold tiles of equal value; an empty cell or such a pair makes it true.
  The variant of \<^verbatim>\<open>script.js\<close> returns the same.
\<close>

theorem movesAvailable_iff:
  "(\<not> movesAvailable g \<longleftrightarrow> noEmptyCell g \<and> \<not> equalNeighbours g) \<and>
   (\<not> noEmptyCell g \<or> equalNeighbours g \<longrightarrow> movesAvailable g) \<and>
   (movesAvailableScript g \<longleftrightarrow> movesAvailable g)"
  using movesAvailable_imp [of g] equalNeighbours_imp [of g] empty_imp_movesAvailable [of g]
    movesAvailableScript_iff [of g]
  by blast

theorem movesAvailable_iff_witness:
  "\<not> movesAvailable fullGrid \<and> movesAvailable rowGrid \<and>
   movesAvailable (setCell fullGrid 1 1 (Some 4))"
proof -
  have "noEmptyCell fullGrid \<and> \<not> equalNeighbours fullGrid"
    by (simp add: noEmptyCell_def equalNeighbours_def adjacent_def fullGrid_def getCell_def
        gridSize_def upt_4)
  moreover have "\<not> noEmptyCell rowGrid"
    by (simp add: noEmptyCell_def rowGrid_def getCell_def gridSize_def upt_4)
  moreover have "equalNeighbours (setCell fullGrid 1 1 (Some 4))"
    by (simp add: equalNeighbours_def adjacent_def fullGrid_def getCell_def setCell_def
        gridSize_def upt_4)
  ultimately show ?thesis
    using movesAvailable_iff [of fullGrid] movesAvailable_iff [of rowGrid]
      movesAvailable_iff [of "setCell fullGrid 1 1 (Some 4)"]
    by blast
qed

section \<open>The scan of the grid in move\<close>

lemma legalDirection_vector:
  "legalDirection d \<Longrightarrow> \<exists>v. getVector d = Vector v \<and> legalVector v"
  by (auto simp: legalDirection_def legalVector_def getVector_def)

lemma forEach_invariant:
  assumes "forEach f xs s = Some s'" and "P s"
    and "\<And>x a b. x \<in> set xs \<Longrightarrow> P a \<Longrightarrow> f x a = Some b \<Longrightarrow> P b"
  shows "P s'"
  using assms
proof (induction xs arbitrary: s)
  case Nil
  then show ?case by simp
next
  case (Cons x xs)
  from Cons.prems(1) obtain b where b: "f x s = Some b" "forEach f xs b = Some s'"
    by (auto split: option.splits)
  from Cons.prems(3) [OF _ Cons.prems(2) b(1)] have "P b" by simp
  with Cons.IH [OF b(2)] Cons.prems(3) show ?case by (meson list.set_intros(2))
qed

lemma forEach_total:
  assumes "P s" and "\<And>x a. x \<in> set xs \<Longrightarrow> P a \<Longrightarrow> \<exists>b. f x a = Some b \<and> P b"
  shows "\<exists>s'. forEach f xs s = Some s' \<and> P s'"
  using assms
proof (induction xs arbitrary: s)
  case Nil
  then show ?case by simp
next
  case (Cons x xs)
  from Cons.prems obtain b where b: "f x s = Some b" "P b" by (meson list.set_intros(1))
  from Cons.IH [OF b(2)] Cons.prems(2) obtain s' where "forEach f xs b = Some s' \<and> P s'"
    by (meson list.set_intros(2))
  with b show ?case by simp
qed

lemma farthestLoop_result:
  "farthestLoop g v prev nx = Some ps \<Longrightarrow>
     (farthest ps = prev \<or> (withinBounds (farthest ps) \<and> cellAvailable g (farthest ps))) \<and>
     \<not> (withinBounds (nextp ps) \<and> cellAvailable g (nextp ps))"
proof (induction rule: farthestLoop.raw_induct [rotated 1, consumes 1])
  case (1 loop g v prev nx ps)
  show ?case
  proof (cases "withinBounds nx \<and> cellAvailable g nx")
    case True
    with 1(2) have "loop g v nx \<lparr>row = row nx + row v, col = col nx + col v\<rparr> = Some ps" by simp
    from 1(1) [OF this] True show ?thesis by auto
  next
    case False
    with 1(2) show ?thesis by auto
  qed
qed

lemma farthestLoop_terminates:
  assumes "legalVector v"
  shows "\<exists>ps. farthestLoop g v prev nx = Some ps"
proof (induction "stepsLeft v nx" arbitrary: prev nx rule: less_induct)
  case less
  show ?case
  proof (cases "withinBounds nx \<and> cellAvailable g nx")
    case True
    with assms have "stepsLeft v \<lparr>row = row nx + row v, col = col nx + col v\<rparr> < stepsLeft v nx"
      by (auto simp: legalVector_def stepsLeft_def withinBounds_def)
    from less [OF this] show ?thesis using True by (subst farthestLoop.simps) auto
  next
    case False
    then show ?thesis by (subst farthestLoop.simps) auto
  qed
qed

lemma farthestLoop_occupied:
  "\<not> (withinBounds nx \<and> cellAvailable g nx) \<Longrightarrow>
   farthestLoop g v prev nx = Some \<lparr>farthest = prev, nextp = nx\<rparr>"
  by (subst farthestLoop.simps) auto

lemma updateScore_simps [simp]:
  "grid (updateScore p e) = grid e"
  "won (updateScore p e) = won e"
  "keepPlaying (updateScore p e) = keepPlaying e"
  "gameHistory (updateScore p e) = gameHistory e"
  "undoCount (updateScore p e) = undoCount e"
  "animations (updateScore p e) = animations e"
  "score (updateScore p e) = score e + p"
  by (simp_all add: updateScore_def Let_def)

lemma moveCell_vector_cases [consumes 1, case_names empty merge relocate stay]:
  assumes "moveCell (Vector v) r c sc = Some sc'"
  obtains
    (empty) "getCell (grid (eng sc)) (nat r) (nat c) = None" "sc' = sc"
  | (merge) tv ps where
      "getCell (grid (eng sc)) (nat r) (nat c) = Some tv"
      "findFarthestPosition (grid (eng sc)) \<lparr>row = r, col = c\<rparr> v = Some ps"
      "gridLookup (grid (eng sc)) (nextp ps) = Some (Some tv)"
      "\<not> merged sc ! nat (row (nextp ps)) ! nat (col (nextp ps))"
      "eng sc' = (updateScore (tv * 2) ((eng sc)\<lparr>grid :=
          setCell (setCell (grid (eng sc)) (nat (row (nextp ps))) (nat (col (nextp ps))) (Some (tv * 2)))
            (nat r) (nat c) None\<rparr>))
         \<lparr>animations := animations (eng sc) @
            [MoveAnim r c (row (nextp ps)) (col (nextp ps)) tv,
             MergeAnim (row (nextp ps)) (col (nextp ps)) (tv * 2)]\<rparr>"
      "moved sc'"
      "merged sc' = setCell (merged sc) (nat (row (nextp ps))) (nat (col (nextp ps))) True"
  | (relocate) tv ps where
      "getCell (grid (eng sc)) (nat r) (nat c) = Some tv"
      "findFarthestPosition (grid (eng sc)) \<lparr>row = r, col = c\<rparr> v = Some ps"
      "farthest ps \<noteq> \<lparr>row = r, col = c\<rparr>"
      "eng sc' = (eng sc)\<lparr>grid :=
          setCell (setCell (grid (eng sc)) (nat (row (farthest ps))) (nat (col (farthest ps))) (Some tv))
            (nat r) (nat c) None,
          animations := animations (eng sc) @
            [MoveAnim r c (row (farthest ps)) (col (farthest ps)) tv]\<rparr>"
      "moved sc'"
      "merged sc' = merged sc"
  | (stay) tv ps where
      "getCell (grid (eng sc)) (nat r) (nat c) = Some tv"
      "findFarthestPosition (grid (eng sc)) \<lparr>row = r, col = c\<rparr> v = Some ps"
      "farthest ps = \<lparr>row = r, col = c\<rparr>"
      "sc' = sc"
proof (cases "getCell (grid (eng sc)) (nat r) (nat c)")
  case None
  with assms have "sc' = sc" by (simp add: moveCell_def)
  with None show ?thesis by (rule empty)
next
  case (Some tv)
  with assms obtain ps where ps: "findFarthestPosition (grid (eng sc)) \<lparr>row = r, col = c\<rparr> v = Some ps"
    by (auto simp: moveCell_def Let_def split: option.splits)
  let ?m = "(case gridLookup (grid (eng sc)) (nextp ps) of
                     Some (Some nv) \<Rightarrow> nv = tv \<and> \<not> merged sc ! nat (row (nextp ps)) ! nat (col (nextp ps))
                   | _ \<Rightarrow> False)"
  show ?thesis
  proof (cases ?m)
    case True
    then have lk: "gridLookup (grid (eng sc)) (nextp ps) = Some (Some tv)"
      and nm: "\<not> merged sc ! nat (row (nextp ps)) ! nat (col (nextp ps))"
      by (auto split: option.splits)
    from assms Some ps True show ?thesis
      by (intro merge [OF Some ps lk nm]) (auto simp: moveCell_def Let_def)
  next
    case False
    show ?thesis
    proof (cases "farthest ps = \<lparr>row = r, col = c\<rparr>")
      case True
      then have "row (farthest ps) = r" "col (farthest ps) = c" by simp_all
      with assms Some ps False have "sc' = sc" by (simp add: moveCell_def Let_def)
      from Some ps True this show ?thesis by (rule stay)
    next
      case neq: False
      then have "row (farthest ps) \<noteq> r \<or> col (farthest ps) \<noteq> c"
        by (cases "farthest ps") auto
      with assms Some ps False show ?thesis
        by (intro relocate [OF Some ps neq]) (auto simp: moveCell_def Let_def)
    qed
  qed
qed

lemma moveCell_cases [consumes 1, case_names empty merge relocate stay inherited]:
  assumes "moveCell w r c sc = Some sc'"
  obtains
    (empty) "getCell (grid (eng sc)) (nat r) (nat c) = None" "sc' = sc"
  | (merge) tv ps v where
      "getCell (grid (eng sc)) (nat r) (nat c) = Some tv"
      "findFarthestPosition (grid (eng sc)) \<lparr>row = r, col = c\<rparr> v = Some ps"
      "gridLookup (grid (eng sc)) (nextp ps) = Some (Some tv)"
      "\<not> merged sc ! nat (row (nextp ps)) ! nat (col (nextp ps))"
      "eng sc' = (updateScore (tv * 2) ((eng sc)\<lparr>grid :=
          setCell (setCell (grid (eng sc)) (nat (row (nextp ps))) (nat (col (nextp ps))) (Some (tv * 2)))
            (nat r) (nat c) None\<rparr>))
         \<lparr>animations := animations (eng sc) @
            [MoveAnim r c (row (nextp ps)) (col (nextp ps)) tv,
             MergeAnim (row (nextp ps)) (col (nextp ps)) (tv * 2)]\<rparr>"
      "moved sc'"
      "merged sc' = setCell (merged sc) (nat (row (nextp ps))) (nat (col (nextp ps))) True"
      "w = Vector v"
  | (relocate) tv ps v where
      "getCell (grid (eng sc)) (nat r) (nat c) = Some tv"
      "findFarthestPosition (grid (eng sc)) \<lparr>row = r, col = c\<rparr> v = Some ps"
      "farthest ps \<noteq> \<lparr>row = r, col = c\<rparr>"
      "eng sc' = (eng sc)\<lparr>grid :=
          setCell (setCell (grid (eng sc)) (nat (row (farthest ps))) (nat (col (farthest ps))) (Some tv))
            (nat r) (nat c) None,
          animations := animations (eng sc) @
            [MoveAnim r c (row (farthest ps)) (col (farthest ps)) tv]\<rparr>"
      "moved sc'"
      "merged sc' = merged sc"
      "w = Vector v"
  | (stay) tv ps v where
      "getCell (grid (eng sc)) (nat r) (nat c) = Some tv"
      "findFarthestPosition (grid (eng sc)) \<lparr>row = r, col = c\<rparr> v = Some ps"
      "farthest ps = \<lparr>row = r, col = c\<rparr>"
      "sc' = sc"
      "w = Vector v"
  | (inherited) tv where
      "getCell (grid (eng sc)) (nat r) (nat c) = Some tv"
      "sc' = sc"
      "w = Inherited"
proof (cases w)
  case (Vector v)
  with assms have "moveCell (Vector v) r c sc = Some sc'" by simp
  then show ?thesis
  proof (cases rule: moveCell_vector_cases)
    case empty
    then show ?thesis by (rule that(1))
  next
    case (merge tv ps)
    from this Vector show ?thesis by (rule that(2))
  next
    case (relocate tv ps)
    from this Vector show ?thesis by (rule that(3))
  next
    case (stay tv ps)
    from this Vector show ?thesis by (rule that(4))
  qed
next
  case Inherited
  show ?thesis
  proof (cases "getCell (grid (eng sc)) (nat r) (nat c)")
    case None
    with assms have "sc' = sc" by (simp add: moveCell_def)
    with None show ?thesis by (rule that(1))
  next
    case (Some tv)
    with assms Inherited have "sc' = sc" by (simp add: moveCell_def)
    from Some this Inherited show ?thesis by (rule that(5))
  qed
qed

lemma traversal_bounds:
  "x \<in> set (rows (buildTraversals v)) \<Longrightarrow> 0 \<le> x \<and> x < 4"
  "x \<in> set (cols (buildTraversals v)) \<Longrightarrow> 0 \<le> x \<and> x < 4"
  by (auto simp: buildTraversals_def Let_def gridSize_def split: if_splits)

lemma saveGameState_simps [simp]:
  "grid (saveGameState s) = grid s"
  "score (saveGameState s) = score s"
  "bestScore (saveGameState s) = bestScore s"
  "won (saveGameState s) = won s"
  "keepPlaying (saveGameState s) = keepPlaying s"
  "undoCount (saveGameState s) = undoCount s"
  "animations (saveGameState s) = animations s"
  by (simp_all add: saveGameState_def Let_def)

lemma scanGrid_invariant:
  assumes "scanGrid d s = Some sc"
    and init: "P \<lparr>eng = saveGameState (s\<lparr>animations := []\<rparr>), moved = False,
              merged = map (\<lambda>r. map (\<lambda>c. False) [0..<gridSize]) [0..<gridSize]\<rparr>"
    and step: "\<And>r c a b. 0 \<le> r \<Longrightarrow> r < 4 \<Longrightarrow> 0 \<le> c \<Longrightarrow> c < 4 \<Longrightarrow> P a \<Longrightarrow>
                 moveCell (getVector d) r c a = Some b \<Longrightarrow> P b"
  shows "P sc"
proof -
  let ?tr = "buildTraversals (getVector d)"
  from assms(1) have run: "forEach (moveRow (getVector d) (cols ?tr)) (rows ?tr)
      \<lparr>eng = saveGameState (s\<lparr>animations := []\<rparr>), moved = False,
       merged = map (\<lambda>r. map (\<lambda>c. False) [0..<gridSize]) [0..<gridSize]\<rparr> = Some sc"
    by (simp add: scanGrid_def Let_def)
  show ?thesis
  proof (rule forEach_invariant [where P = P, OF run init])
    fix r a b
    assume r: "r \<in> set (rows ?tr)" and a: "P a"
      and rw: "moveRow (getVector d) (cols ?tr) r a = Some b"
    from rw have inner: "forEach (\<lambda>c. moveCell (getVector d) r c) (cols ?tr) a = Some b"
      by (simp add: moveRow_def)
    show "P b"
    proof (rule forEach_invariant [where P = P, OF inner a])
      fix c a' b'
      assume "c \<in> set (cols ?tr)" "P a'" "moveCell (getVector d) r c a' = Some b'"
      with r show "P b'" using traversal_bounds [of r "getVector d"] traversal_bounds [of c "getVector d"]
        by (intro step [of r c a' b']) auto
    qed
  qed
qed

lemma wfGrid_falseGrid: "wfGrid (map (\<lambda>r. map (\<lambda>c. False) [0..<gridSize]) [0..<gridSize])"
  by (simp add: wfGrid_iff)

lemma moveCell_wf:
  assumes "moveCell v r c a = Some b" "wfGrid (grid (eng a)) \<and> wfGrid (merged a)"
  shows "wfGrid (grid (eng b)) \<and> wfGrid (merged b)"
  using assms by (cases rule: moveCell_cases) (simp_all add: wfGrid_setCell)

lemma scanGrid_wf:
  assumes "scanGrid d s = Some sc" "wfGrid (grid s)"
  shows "wfGrid (grid (eng sc)) \<and> wfGrid (merged sc)"
proof (rule scanGrid_invariant [OF assms(1)])
  fix r c a b
  assume "wfGrid (grid (eng a)) \<and> wfGrid (merged a)" "moveCell (getVector d) r c a = Some b"
  then show "wfGrid (grid (eng b)) \<and> wfGrid (merged b)" using moveCell_wf by blast
qed (use assms(2) in \<open>simp add: wfGrid_falseGrid\<close>)

text \<open>The scan leaves history, undo budget and the two flags alone.\<close>

lemma moveCell_frame:
  assumes "moveCell v r c a = Some b"
  shows "gameHistory (eng b) = gameHistory (eng a) \<and> undoCount (eng b) = undoCount (eng a) \<and>
         won (eng b) = won (eng a) \<and> keepPlaying (eng b) = keepPlaying (eng a)"
  using assms by (cases rule: moveCell_cases) simp_all

lemma scanGrid_frame:
  assumes "scanGrid d s = Some sc"
  shows "gameHistory (eng sc) = gameHistory (saveGameState s) \<and> undoCount (eng sc) = undoCount s \<and>
         won (eng sc) = won s \<and> keepPlaying (eng sc) = keepPlaying s"
  by (rule scanGrid_invariant [OF assms]) (auto simp: saveGameState_def Let_def takeSnapshot_def dest: moveCell_frame)

text \<open>Unless a tile moved, the scan changes nothing.\<close>

lemma moveCell_unmoved:
  assumes "moveCell v r c a = Some b" "\<not> moved b"
  shows "b = a"
  using assms by (cases rule: moveCell_cases) simp_all

lemma moveCell_moved_mono:
  assumes "moveCell v r c a = Some b" "moved a"
  shows "moved b"
  using assms by (cases rule: moveCell_cases) simp_all

lemma scanGrid_unmoved:
  assumes "scanGrid d s = Some sc"
  shows "moved sc \<or> eng sc = saveGameState (s\<lparr>animations := []\<rparr>)"
proof (rule scanGrid_invariant [OF assms])
  fix r c a b
  assume "moved a \<or> eng a = saveGameState (s\<lparr>animations := []\<rparr>)" "moveCell (getVector d) r c a = Some b"
  then show "moved b \<or> eng b = saveGameState (s\<lparr>animations := []\<rparr>)"
    using moveCell_unmoved [of "getVector d" r c a b] moveCell_moved_mono [of "getVector d" r c a b]
    by auto
qed simp

text \<open>Every call of the loop returns.\<close>

lemma moveCell_total:
  assumes "legalVector v \<or> v = \<lparr>row = 0, col = 0\<rparr>"
  shows "\<exists>b. moveCell (Vector v) r c a = Some b"
proof (cases "getCell (grid (eng a)) (nat r) (nat c)")
  case None
  then show ?thesis by (simp add: moveCell_def)
next
  case (Some tv)
  have "\<exists>ps. findFarthestPosition (grid (eng a)) \<lparr>row = r, col = c\<rparr> v = Some ps"
  proof (cases "legalVector v")
    case True
    then show ?thesis unfolding findFarthestPosition_def by (rule farthestLoop_terminates)
  next
    case False
    with assms have v: "v = \<lparr>row = 0, col = 0\<rparr>" by simp
    from Some have "\<not> cellAvailable (grid (eng a)) \<lparr>row = r, col = c\<rparr>"
      by (simp add: cellAvailable_def)
    then show ?thesis unfolding findFarthestPosition_def v
      by (simp add: farthestLoop_occupied)
  qed
  then show ?thesis using Some by (auto simp: moveCell_def Let_def)
qed


lemma getVector_cases:
  "(\<exists>v. getVector d = Vector v \<and> (legalVector v \<or> v = \<lparr>row = 0, col = 0\<rparr>)) \<or>
   getVector d = Inherited"
  by (auto simp: getVector_def legalVector_def split: option.splits)

lemma moveCell_getVector_total: "\<exists>b. moveCell (getVector d) r c a = Some b"
proof -
  from getVector_cases [of d] show ?thesis
  proof
    assume "\<exists>v. getVector d = Vector v \<and> (legalVector v \<or> v = \<lparr>row = 0, col = 0\<rparr>)"
    then show ?thesis using moveCell_total by auto
  next
    assume i: "getVector d = Inherited"
    show ?thesis unfolding i
      by (cases "getCell (grid (eng a)) (nat r) (nat c)") (simp_all add: moveCell_def)
  qed
qed

lemma scanGrid_total: "\<exists>sc. scanGrid d s = Some sc"
proof -
  have "\<exists>sc. forEach (moveRow (getVector d) (cols (buildTraversals (getVector d))))
           (rows (buildTraversals (getVector d)))
           \<lparr>eng = saveGameState (s\<lparr>animations := []\<rparr>), moved = False,
            merged = map (\<lambda>r. map (\<lambda>c. False) [0..<gridSize]) [0..<gridSize]\<rparr> = Some sc \<and> True"
  proof (rule forEach_total [where P = "\<lambda>_. True"])
    fix r a
    have "\<exists>b. forEach (\<lambda>c. moveCell (getVector d) r c) (cols (buildTraversals (getVector d))) a = Some b \<and> True"
      by (rule forEach_total [where P = "\<lambda>_. True"]) (use moveCell_getVector_total in auto)
    then show "\<exists>b. moveRow (getVector d) (cols (buildTraversals (getVector d))) r a = Some b \<and> True"
      by (simp add: moveRow_def)
  qed simp
  then show ?thesis by (simp add: scanGrid_def Let_def)
qed

lemma move_total: "\<exists>b s'. move d rn s = Some (b, s')"
  using scanGrid_total [of d s] by (auto simp: move_def)

section \<open>move followed by undo\<close>

lemma addRandomTile_frame [simp]:
  "gameHistory (snd (addRandomTile rn s)) = gameHistory s"
  "undoCount (snd (addRandomTile rn s)) = undoCount s"
  "score (snd (addRandomTile rn s)) = score s"
  "bestScore (snd (addRandomTile rn s)) = bestScore s"
  "won (snd (addRandomTile rn s)) = won s"
  "keepPlaying (snd (addRandomTile rn s)) = keepPlaying s"
  "animations (snd (addRandomTile rn s)) = animations s"
  by (simp_all add: addRandomTile_def Let_def)

lemma checkGameState_frame [simp]:
  "gameHistory (checkGameState s) = gameHistory s"
  "undoCount (checkGameState s) = undoCount s"
  "score (checkGameState s) = score s"
  "bestScore (checkGameState s) = bestScore s"
  "grid (checkGameState s) = grid s"
  "keepPlaying (checkGameState s) = keepPlaying s"
  "animations (checkGameState s) = animations s"
  by (simp_all add: checkGameState_def)

lemma gameHistory_saveGameState:
  "gameHistory (saveGameState s) =
     (if length (gameHistory s) \<ge> 5 then tl (gameHistory s) else gameHistory s) @ [takeSnapshot s]"
  by (cases "gameHistory s") (auto simp: saveGameState_def Let_def)

lemma takeSnapshot_animations [simp]: "takeSnapshot (s\<lparr>animations := a\<rparr>) = takeSnapshot s"
  by (simp add: takeSnapshot_def)

lemma saveGameState_animations:
  "gameHistory (saveGameState (s\<lparr>animations := a\<rparr>)) = gameHistory (saveGameState s)"
  by (simp add: gameHistory_saveGameState)

lemma move_success:
  assumes "move d rn s = Some (True, s')"
  obtains sc where "scanGrid d s = Some sc" "moved sc"
    "s' = checkGameState (snd (addRandomTile rn (eng sc)))"
  using assms by (auto simp: move_def split: option.splits if_splits)

lemma move_noop:
  assumes "move d rn s = Some (False, s')"
  obtains sc where "scanGrid d s = Some sc" "\<not> moved sc"
    "s' = (eng sc)\<lparr>gameHistory := butlast (gameHistory (eng sc))\<rparr>"
  using assms by (auto simp: move_def split: option.splits if_splits)

lemma gameHistory_move_success:
  assumes "move d rn s = Some (True, s')"
  shows "gameHistory s' =
     (if length (gameHistory s) \<ge> 5 then tl (gameHistory s) else gameHistory s) @ [takeSnapshot s]"
    and "undoCount s' = undoCount s"
proof -
  from assms obtain sc where sc: "scanGrid d s = Some sc"
    "s' = checkGameState (snd (addRandomTile rn (eng sc)))" by (rule move_success)
  from scanGrid_frame [OF sc(1)] sc(2)
  show "gameHistory s' =
     (if length (gameHistory s) \<ge> 5 then tl (gameHistory s) else gameHistory s) @ [takeSnapshot s]"
    and "undoCount s' = undoCount s"
    by (simp_all add: gameHistory_saveGameState)
qed

text \<open>
  C3: after a successful move in a legal direction, with an undo left, \<^verbatim>\<open>undo\<close> returns
  \<open>True\<close> and restores grid, score, won and keepPlaying to their values before the move;
  \<open>undoCount\<close> is one less than before the move.
\<close>

theorem move_undo_roundtrip:
  assumes "wfGrid (grid s)" and "0 < undoCount s" and "legalDirection d"
    and "move d rn s = Some (True, s')"
  shows "\<exists>s''. undo s' = (True, s'') \<and> grid s'' = grid s \<and> score s'' = score s \<and>
           won s'' = won s \<and> keepPlaying s'' = keepPlaying s \<and>
           undoCount s'' = undoCount s - 1"
  using gameHistory_move_success [OF assms(4)] assms(1,2)
  by (simp add: undo_def takeSnapshot_def copyGrid_id wfGrid_copyGrid)

section \<open>Rounding to a double\<close>

text \<open>
  What the engine needs of the arithmetic: below 16 the doubles are at most \<open>2 ^ - 49\<close>
  apart and every whole number is one of them, a result of \<^verbatim>\<open>Math.random()\<close> is at most
  \<open>1 - 2 ^ - 53\<close>, and its product with a length up to 16 is rounded to a number below that
  length.
\<close>

lemma halvings_numeral: "halvings (numeral k) x = (if x < 2 then 0 else Suc (halvings (pred_numeral k) (x / 2)))"
  by (simp add: numeral_eq_Suc)

lemma doublings_numeral: "doublings (numeral k) x = (if 1 \<le> x then 0 else Suc (doublings (pred_numeral k) (2 * x)))"
  by (simp add: numeral_eq_Suc)

lemmas fp_eval = roundDouble_def ulp_def roundHalfEven_def halvings_numeral doublings_numeral
  Let_def

lemma roundHalfEven_bounds:
  "real_of_int (roundHalfEven r) \<le> r + 1 / 2" "r - 1 / 2 \<le> real_of_int (roundHalfEven r)"
  unfolding roundHalfEven_def Let_def by (simp_all; linarith)+

lemma roundHalfEven_ge: "real_of_int k \<le> r \<Longrightarrow> k \<le> roundHalfEven r"
proof -
  assume "real_of_int k \<le> r"
  then have "k \<le> \<lfloor>r\<rfloor>" by (simp add: le_floor_iff)
  moreover have "\<lfloor>r\<rfloor> \<le> roundHalfEven r" by (simp add: roundHalfEven_def Let_def)
  ultimately show ?thesis by simp
qed

lemma roundHalfEven_le: "r \<le> real_of_int k \<Longrightarrow> roundHalfEven r \<le> k"
proof -
  assume a: "r \<le> real_of_int k"
  show ?thesis
  proof (cases "r = real_of_int \<lfloor>r\<rfloor>")
    case True
    then have "roundHalfEven r = \<lfloor>r\<rfloor>" by (simp add: roundHalfEven_def Let_def)
    with a show ?thesis by (simp add: floor_le_iff)
  next
    case False
    then have "real_of_int \<lfloor>r\<rfloor> < r" by (metis of_int_floor_le order_less_le)
    with a have "\<lfloor>r\<rfloor> < k" by linarith
    moreover have "roundHalfEven r \<le> \<lfloor>r\<rfloor> + 1" by (simp add: roundHalfEven_def Let_def)
    ultimately show ?thesis by simp
  qed
qed

lemma halvings_le: "1 \<le> x \<Longrightarrow> 2 ^ halvings k x \<le> x"
  by (induction k x rule: halvings.induct) auto

lemma halvings_bound: "x < 2 ^ Suc j \<Longrightarrow> halvings k x \<le> j"
proof (induction k x arbitrary: j rule: halvings.induct)
  case (1 x)
  then show ?case by simp
next
  case (2 k x)
  show ?case
  proof (cases "x < 2")
    case True
    then show ?thesis by simp
  next
    case False
    with 2(2) obtain i where j: "j = Suc i" by (cases j) auto
    with 2(2) have "x / 2 < 2 ^ Suc i" by simp
    from 2(1) [OF False this] False j show ?thesis by simp
  qed
qed

lemma doublings_half: "1 / 2 \<le> x \<Longrightarrow> x < 1 \<Longrightarrow> doublings (Suc (Suc k)) x = 1"
  by simp

lemma doublings_pos: "x < 1 \<Longrightarrow> 0 < doublings (Suc k) x"
  by simp

lemma ulp_small:
  assumes "0 \<le> x" "x < 16"
  shows "\<exists>j. 49 \<le> j \<and> ulp x = 1 / 2 ^ j"
proof (cases "1 \<le> x")
  case True
  from assms(2) have "halvings 1023 x \<le> 3" by (intro halvings_bound) simp
  then have "(2::real) ^ halvings 1023 x / 2 ^ 52 = 1 / 2 ^ (52 - halvings 1023 x)"
    by (simp add: power_diff)
  with True \<open>halvings 1023 x \<le> 3\<close> show ?thesis
    by (intro exI [of _ "52 - halvings 1023 x"]) (simp add: ulp_def)
next
  case False
  then show ?thesis by (intro exI [of _ "52 + doublings 1022 x"]) (simp add: ulp_def)
qed

lemma ulp_half: "1 / 2 \<le> x \<Longrightarrow> x < 1 \<Longrightarrow> ulp x = 1 / 2 ^ 53"
  by (simp add: ulp_def doublings_numeral)

lemma ulp_le: "1 \<le> x \<Longrightarrow> ulp x * 2 ^ 52 \<le> x"
  by (simp add: ulp_def halvings_le)

lemma ulp_lt1: "x < 1 \<Longrightarrow> ulp x * 2 ^ 52 \<le> 1 / 2"
proof -
  assume a: "x < 1"
  then have "0 < doublings 1022 x" by (simp add: doublings_numeral)
  then obtain d where d: "doublings 1022 x = Suc d" by (cases "doublings 1022 x") auto
  have "(1::real) \<le> 2 ^ d" by simp
  then have "(1::real) / 2 ^ Suc d \<le> 1 / 2" by (simp add: field_simps)
  with a d show ?thesis by (simp add: ulp_def power_add)
qed


lemma roundDouble_ge:
  assumes "0 \<le> x" "x < 16" "real_of_int i \<le> x"
  shows "real_of_int i \<le> roundDouble x"
proof -
  from ulp_small [OF assms(1,2)] obtain j where j: "49 \<le> j" "ulp x = 1 / 2 ^ j" by blast
  have "real_of_int (i * 2 ^ j) \<le> x * 2 ^ j" using assms(3) by simp
  then have "i * 2 ^ j \<le> roundHalfEven (x * 2 ^ j)" by (rule roundHalfEven_ge)
  then have "real_of_int (i * 2 ^ j) \<le> real_of_int (roundHalfEven (x * 2 ^ j))" by linarith
  then show ?thesis by (simp add: roundDouble_def j field_simps)
qed

lemma roundDouble_less:
  assumes "0 \<le> x" "x < 16" "x \<le> real_of_int i - 1 / 2 ^ 49"
  shows "roundDouble x < real_of_int i"
proof -
  from ulp_small [OF assms(1,2)] obtain j where j: "49 \<le> j" "ulp x = 1 / 2 ^ j" by blast
  have "(2::real) ^ 49 \<le> 2 ^ j" using j(1) by (intro power_increasing) simp_all
  then have one: "(1::real) \<le> 2 ^ j / 2 ^ 49" by simp
  have "x * 2 ^ j \<le> (real_of_int i - 1 / 2 ^ 49) * 2 ^ j" using assms(3) by simp
  also have "\<dots> = real_of_int i * 2 ^ j - 2 ^ j / 2 ^ 49" by (simp add: algebra_simps)
  also have "\<dots> \<le> real_of_int i * 2 ^ j - 1" using one by linarith
  finally have "x * 2 ^ j \<le> real_of_int (i * 2 ^ j - 1)" by simp
  then have "roundHalfEven (x * 2 ^ j) \<le> i * 2 ^ j - 1" by (rule roundHalfEven_le)
  then have "real_of_int (roundHalfEven (x * 2 ^ j)) < real_of_int (i * 2 ^ j)" by linarith
  then show ?thesis by (simp add: roundDouble_def j field_simps)
qed

lemma roundDouble_0: "roundDouble 0 = 0"
  by (simp add: roundDouble_def roundHalfEven_def)

lemma isRandom_le:
  assumes "isRandom u"
  shows "u \<le> 1 - 1 / 2 ^ 53"
proof (cases "u < 1 / 2")
  case True
  then show ?thesis by simp
next
  case False
  from assms have u: "0 \<le> u" "u < 1" "roundDouble u = u" by (simp_all add: isRandom_def)
  from False u(2) have q: "ulp u = 1 / 2 ^ 53" by (simp add: ulp_half)
  let ?m = "roundHalfEven (u * 2 ^ 53)"
  from u(3) q have m: "u = real_of_int ?m / 2 ^ 53" by (simp add: roundDouble_def)
  with u(2) have "real_of_int ?m < 2 ^ 53" by (simp add: field_simps)
  then have "?m < 2 ^ 53" by simp
  then have "?m \<le> 2 ^ 53 - 1" by simp
  then have "real_of_int ?m \<le> real_of_int (2 ^ 53 - 1)" by (simp only: of_int_le_iff)
  then have "real_of_int ?m \<le> 2 ^ 53 - 1" by simp
  then have "real_of_int ?m / 2 ^ 53 \<le> (2 ^ 53 - 1) / 2 ^ 53" by (rule divide_right_mono) simp
  with m show ?thesis by (simp add: diff_divide_distrib)
qed

lemma roundDouble_index:
  assumes "isRandom u" "0 < n" "n \<le> 16"
  shows "0 \<le> roundDouble (u * real n)" "roundDouble (u * real n) < real n"
proof -
  let ?x = "u * real n"
  from assms(1) have u: "0 \<le> u" "u < 1" by (simp_all add: isRandom_def)
  from assms(3) have n16: "real n \<le> 16" by simp
  from u assms(2) have x: "0 \<le> ?x" "?x < real n" by simp_all
  with n16 have x16: "?x < 16" by simp
  from roundDouble_ge [OF x(1) x16, of 0] x(1) show "0 \<le> roundDouble ?x" by simp
  from ulp_small [OF x(1) x16] obtain j where j: "49 \<le> j" "ulp ?x = 1 / 2 ^ j" by blast
  have big: "(2::real) ^ 52 < real n * 2 ^ j"
  proof (cases "1 \<le> ?x")
    case True
    from ulp_le [OF True] j(2) x(2) have "(2::real) ^ 52 / 2 ^ j < real n" by simp
    then show ?thesis by (simp add: pos_divide_less_eq)
  next
    case False
    then have "ulp ?x * 2 ^ 52 \<le> 1 / 2" by (intro ulp_lt1) simp
    moreover have "1 \<le> real n" using assms(2) by simp
    ultimately have "(2::real) ^ 52 / 2 ^ j \<le> 1 / 2" "1 / 2 < real n" using j(2) by simp_all
    then have "(2::real) ^ 52 / 2 ^ j < real n" by linarith
    then show ?thesis by (simp add: pos_divide_less_eq)
  qed
  from isRandom_le [OF assms(1)] have "?x \<le> (1 - 1 / 2 ^ 53) * real n"
    by (rule mult_right_mono) simp
  then have "?x * 2 ^ j \<le> (1 - 1 / 2 ^ 53) * real n * 2 ^ j" by (rule mult_right_mono) simp
  also have "\<dots> = real n * 2 ^ j - real n * 2 ^ j / 2 ^ 53" by (simp add: algebra_simps)
  also have "\<dots> < real n * 2 ^ j - 1 / 2"
  proof -
    from big have "(2::real) ^ 52 / 2 ^ 53 < real n * 2 ^ j / 2 ^ 53" by (rule divide_strict_right_mono) simp
    then show ?thesis by simp
  qed
  finally have r: "?x * 2 ^ j < real n * 2 ^ j - 1 / 2" .
  from roundHalfEven_bounds(1) [of "?x * 2 ^ j"] r
  have "real_of_int (roundHalfEven (?x * 2 ^ j)) < real n * 2 ^ j" by linarith
  then show "roundDouble ?x < real n" by (simp add: roundDouble_def j field_simps)
qed

lemma roundDouble_nine_tenths: "roundDouble (9 / 10) = 8106479329266893 / 2 ^ 53"
  by (simp add: fp_eval)

lemma isRandom_nine_tenths:
  assumes "isRandom u"
  shows "u < roundDouble (9 / 10) \<longleftrightarrow> u < 9 / 10"
proof
  assume "u < 9 / 10"
  then show "u < roundDouble (9 / 10)" by (simp add: roundDouble_nine_tenths)
next
  assume a: "u < roundDouble (9 / 10)"
  show "u < 9 / 10"
  proof (cases "u < 1 / 2")
    case True
    then show ?thesis by simp
  next
    case False
    from assms have u: "0 \<le> u" "u < 1" "roundDouble u = u" by (simp_all add: isRandom_def)
    from False u(2) have q: "ulp u = 1 / 2 ^ 53" by (simp add: ulp_half)
    let ?m = "roundHalfEven (u * 2 ^ 53)"
    from u(3) q have m: "u = real_of_int ?m / 2 ^ 53" by (simp add: roundDouble_def)
    with a have "real_of_int ?m < 8106479329266893" by (simp add: roundDouble_nine_tenths field_simps)
    then have "?m \<le> 8106479329266892" by linarith
    then have "real_of_int ?m \<le> 8106479329266892" by linarith
    then have "real_of_int ?m / 2 ^ 53 \<le> 8106479329266892 / 2 ^ 53" by (rule divide_right_mono) simp
    with m show ?thesis by simp
  qed
qed


lemma isRandom_0: "isRandom 0"
  by (simp add: isRandom_def roundDouble_0)

lemma isRandom_numberOf: "isRandom (numberOf u)"
  using numberOf [of u] by simp

lemma numberOf_rand: "numberOf (rand x) = (if isRandom x then x else 0)"
  by (simp add: rand_def Random_inverse isRandom_0)

lemma numberOf_range: "0 \<le> numberOf u" "numberOf u < 1"
  using isRandom_numberOf [of u] by (simp_all add: isRandom_def)

lemma numberOf_nine_tenths: "numberOf u < roundDouble (9 / 10) \<longleftrightarrow> numberOf u < 9 / 10"
  by (rule isRandom_nine_tenths) (rule isRandom_numberOf)

text \<open>The index that \<^verbatim>\<open>addRandomTile\<close> computes.\<close>

lemma random_index:
  assumes "0 < n" "n \<le> 16"
  shows "nat \<lfloor>roundDouble (numberOf u * real n)\<rfloor> < n"
proof -
  from roundDouble_index [OF isRandom_numberOf assms]
  have "0 \<le> roundDouble (numberOf u * real n)" "roundDouble (numberOf u * real n) < real n" .
  then have "\<lfloor>roundDouble (numberOf u * real n)\<rfloor> < int n" by (simp add: floor_less_iff)
  with assms(1) show ?thesis by linarith
qed

lemma random_index_interval:
  assumes "0 < n" "n \<le> 16"
  shows "real j \<le> numberOf u * real n \<Longrightarrow> numberOf u * real n \<le> real j + 1 - 1 / 2 ^ 49 \<Longrightarrow>
           nat \<lfloor>roundDouble (numberOf u * real n)\<rfloor> = j"
    and "nat \<lfloor>roundDouble (numberOf u * real n)\<rfloor> = j \<Longrightarrow>
           real j - 1 / 2 ^ 49 < numberOf u * real n \<and> numberOf u * real n < real j + 1"
proof -
  let ?x = "numberOf u * real n"
  from assms(2) have n16: "real n \<le> 16" by simp
  from numberOf_range [of u] assms(1) have x: "0 \<le> ?x" "?x < real n" by simp_all
  with n16 have x16: "?x < 16" by simp
  from roundDouble_ge [OF x(1) x16, of 0] x(1) have nn: "0 \<le> roundDouble ?x" by simp
  {
    assume a: "real j \<le> ?x" "?x \<le> real j + 1 - 1 / 2 ^ 49"
    from roundDouble_ge [OF x(1) x16, of "int j"] a(1) have lo: "real j \<le> roundDouble ?x" by simp
    from roundDouble_less [OF x(1) x16, of "int j + 1"] a(2) have hi: "roundDouble ?x < real j + 1"
      by simp
    from lo hi have "\<lfloor>roundDouble ?x\<rfloor> = int j" by (simp add: floor_eq_iff)
    then show "nat \<lfloor>roundDouble ?x\<rfloor> = j" by simp
  }
  {
    assume a: "nat \<lfloor>roundDouble ?x\<rfloor> = j"
    with nn have fl: "\<lfloor>roundDouble ?x\<rfloor> = int j" by (metis int_nat_eq zero_le_floor)
    then have b: "real j \<le> roundDouble ?x" "roundDouble ?x < real j + 1"
      by (simp_all add: floor_eq_iff)
    have "real j - 1 / 2 ^ 49 < ?x"
    proof (rule ccontr)
      assume "\<not> real j - 1 / 2 ^ 49 < ?x"
      then have "?x \<le> real_of_int (int j) - 1 / 2 ^ 49" by simp
      from roundDouble_less [OF x(1) x16 this] b(1) show False by simp
    qed
    moreover have "?x < real j + 1"
    proof (rule ccontr)
      assume "\<not> ?x < real j + 1"
      then have "real_of_int (int j + 1) \<le> ?x" by simp
      from roundDouble_ge [OF x(1) x16 this] b(2) show False by simp
    qed
    ultimately show "real j - 1 / 2 ^ 49 < ?x \<and> ?x < real j + 1" by simp
  }
qed


section \<open>Empty cells and the random index\<close>

lemma concat_if_filter: "concat (map (\<lambda>c. if Q c then [f c] else []) cs) = map f (filter Q cs)"
  by (induction cs) auto

lemma emptyCells_filter: "emptyCells g = filter (cellAvailable g) allCells"
  by (simp add: emptyCells_def allCells_def filter_concat filter_map concat_if_filter comp_def
      cellAvailable_def)

lemma distinct_allCells: "distinct allCells"
  by (simp add: allCells_def gridSize_def upt_4)

lemma set_allCells: "set allCells = {p. withinBounds p}"
proof -
  have "p \<in> set allCells \<longleftrightarrow> withinBounds p" for p
  proof
    assume "p \<in> set allCells"
    then show "withinBounds p" by (auto simp: allCells_def withinBounds_def)
  next
    assume w: "withinBounds p"
    then have "p = \<lparr>row = int (nat (row p)), col = int (nat (col p))\<rparr>" "nat (row p) < gridSize" "nat (col p) < gridSize"
      by (auto simp: withinBounds_def)
    then show "p \<in> set allCells" unfolding allCells_def by force
  qed
  then show ?thesis by auto
qed

lemma distinct_emptyCells: "distinct (emptyCells g)"
  by (simp add: emptyCells_filter distinct_allCells)

lemma set_emptyCells: "set (emptyCells g) = {p. withinBounds p \<and> cellAvailable g p}"
  by (auto simp: emptyCells_filter set_allCells)

lemma emptyCells_nonempty:
  "r < gridSize \<Longrightarrow> c < gridSize \<Longrightarrow> getCell g r c = None \<Longrightarrow> emptyCells g \<noteq> []"
proof -
  assume "r < gridSize" "c < gridSize" "getCell g r c = None"
  then have "\<lparr>row = int r, col = int c\<rparr> \<in> set (emptyCells g)"
    by (simp add: set_emptyCells withinBounds_def cellAvailable_def)
  then show ?thesis by auto
qed

lemma length_emptyCells: "length (emptyCells g) \<le> 16"
proof -
  have "length (emptyCells g) \<le> length allCells" by (simp add: emptyCells_filter)
  also have "\<dots> = 16" by (simp add: allCells_def gridSize_def upt_4)
  finally show ?thesis .
qed

lemma addRandomTile_index:
  "emptyCells g \<noteq> [] \<Longrightarrow>
   nat \<lfloor>roundDouble (numberOf u * real (length (emptyCells g)))\<rfloor> < length (emptyCells g)"
  by (rule random_index) (simp_all add: length_emptyCells)

section \<open>Tiles and empty cells across a move\<close>

lemma tileCount_sum:
  "tileCount g = (\<Sum>p \<in> {0..<gridSize} \<times> {0..<gridSize}. occ (getCell g (fst p) (snd p)))"
  by (simp add: tileCount_def interv_sum_list_conv_sum_set_nat sum.cartesian_product case_prod_beta)

lemma tileCount_setCell:
  assumes "wfGrid g" "r < gridSize" "c < gridSize"
  shows "tileCount (setCell g r c x) + occ (getCell g r c) = tileCount g + occ x"
proof -
  let ?A = "{0..<gridSize} \<times> {0..<gridSize}"
  let ?f = "\<lambda>g p. occ (getCell g (fst p) (snd p))"
  have fin: "finite ?A" and mem: "(r, c) \<in> ?A" using assms by auto
  have rest: "sum (?f (setCell g r c x)) (?A - {(r, c)}) = sum (?f g) (?A - {(r, c)})"
    by (rule sum.cong) (auto simp: getCell_setCell_wf [OF assms])
  have "tileCount (setCell g r c x) = occ x + sum (?f (setCell g r c x)) (?A - {(r, c)})"
    unfolding tileCount_sum by (subst sum.remove [OF fin mem]) (simp add: getCell_setCell_wf [OF assms])
  moreover have "tileCount g = occ (getCell g r c) + sum (?f g) (?A - {(r, c)})"
    unfolding tileCount_sum by (subst sum.remove [OF fin mem]) simp
  ultimately show ?thesis using rest by simp
qed

lemma gridLookup_wf:
  assumes "wfGrid g" "gridLookup g p = Some x"
  shows "nat (row p) < gridSize \<and> nat (col p) < gridSize \<and> getCell g (nat (row p)) (nat (col p)) = x"
  using assms by (auto simp: gridLookup_def wfGrid_iff getCell_def split: if_splits)

lemma moveCell_leaves_gap:
  assumes "moveCell v r c a = Some b" and "0 \<le> r" "r < 4" "0 \<le> c" "c < 4"
    and "wfGrid (grid (eng a))" and "moved a \<longrightarrow> emptyCells (grid (eng a)) \<noteq> []"
  shows "moved b \<longrightarrow> emptyCells (grid (eng b)) \<noteq> []"
  using assms(1)
proof (cases rule: moveCell_cases)
  case (merge tv ps)
  have "getCell (grid (eng b)) (nat r) (nat c) = None"
    using assms(2-6) by (simp add: merge(5) getCell_setCell_wf wfGrid_setCell gridSize_def)
  then have "emptyCells (grid (eng b)) \<noteq> []"
    by (rule emptyCells_nonempty [of "nat r" "nat c", rotated 2]) (use assms(2-5) in \<open>simp_all add: gridSize_def\<close>)
  then show ?thesis by simp
next
  case (relocate tv ps)
  have "getCell (grid (eng b)) (nat r) (nat c) = None"
    using assms(2-6) by (simp add: relocate(4) getCell_setCell_wf wfGrid_setCell gridSize_def)
  then have "emptyCells (grid (eng b)) \<noteq> []"
    by (rule emptyCells_nonempty [of "nat r" "nat c", rotated 2]) (use assms(2-5) in \<open>simp_all add: gridSize_def\<close>)
  then show ?thesis by simp
qed (use assms(7) in simp_all)

lemma scanGrid_leaves_gap:
  assumes "scanGrid d s = Some sc" "wfGrid (grid s)" "moved sc"
  shows "emptyCells (grid (eng sc)) \<noteq> []"
proof -
  have "(wfGrid (grid (eng sc)) \<and> wfGrid (merged sc)) \<and> (moved sc \<longrightarrow> emptyCells (grid (eng sc)) \<noteq> [])"
  proof (rule scanGrid_invariant [OF assms(1)])
    fix r c a b
    assume "0 \<le> r" "r < 4" "0 \<le> c" "c < 4"
      and "(wfGrid (grid (eng a)) \<and> wfGrid (merged a)) \<and> (moved a \<longrightarrow> emptyCells (grid (eng a)) \<noteq> [])"
      and "moveCell (getVector d) r c a = Some b"
    then show "(wfGrid (grid (eng b)) \<and> wfGrid (merged b)) \<and> (moved b \<longrightarrow> emptyCells (grid (eng b)) \<noteq> [])"
      using moveCell_wf [of "getVector d" r c a b] moveCell_leaves_gap [of "getVector d" r c a b]
      by blast
  qed (use assms(2) in \<open>simp add: wfGrid_falseGrid\<close>)
  with assms(3) show ?thesis by simp
qed

lemma addRandomTile_spawn:
  assumes "wfGrid (grid s)" "emptyCells (grid s) \<noteq> []"
  shows "fst (addRandomTile rn s)"
    and "tileCount (grid (snd (addRandomTile rn s))) = tileCount (grid s) + 1"
proof -
  let ?es = "emptyCells (grid s)"
  let ?i = "nat \<lfloor>roundDouble (numberOf (fst rn) * real (length ?es))\<rfloor>"
  from addRandomTile_index [OF assms(2)] have "?es ! ?i \<in> set ?es" by simp
  then have p: "withinBounds (?es ! ?i)" "cellAvailable (grid s) (?es ! ?i)"
    by (simp_all add: set_emptyCells)
  then have b: "nat (row (?es ! ?i)) < gridSize" "nat (col (?es ! ?i)) < gridSize"
    and e: "getCell (grid s) (nat (row (?es ! ?i))) (nat (col (?es ! ?i))) = None"
    by (auto simp: withinBounds_def cellAvailable_def)
  show "fst (addRandomTile rn s)" using assms(2) by (simp add: addRandomTile_def Let_def)
  show "tileCount (grid (snd (addRandomTile rn s))) = tileCount (grid s) + 1"
    using tileCount_setCell [OF assms(1) b,
        of "Some (if numberOf (snd rn) < roundDouble (9 / 10) then 2 else 4)"] e assms(2)
    by (simp add: addRandomTile_def Let_def occ_def)
qed

text \<open>
  C10: when a move in a legal direction succeeds, the grid has an empty cell at the moment
  \<^verbatim>\<open>addRandomTile\<close> is called, so the call returns \<open>True\<close> and adds exactly one tile.
\<close>

theorem successful_move_spawns:
  assumes "wfGrid (grid s)" and "legalDirection d" and "move d rn s = Some (True, s')"
  shows "\<exists>sc. scanGrid d s = Some sc \<and> moved sc \<and> emptyCells (grid (eng sc)) \<noteq> [] \<and>
           fst (addRandomTile rn (eng sc)) \<and>
           s' = checkGameState (snd (addRandomTile rn (eng sc))) \<and>
           tileCount (grid s') = tileCount (grid (eng sc)) + 1"
proof -
  from assms(3) obtain sc where sc: "scanGrid d s = Some sc" "moved sc"
    "s' = checkGameState (snd (addRandomTile rn (eng sc)))" by (rule move_success)
  from scanGrid_leaves_gap [OF sc(1) assms(1) sc(2)] have gap: "emptyCells (grid (eng sc)) \<noteq> []" .
  from scanGrid_wf [OF sc(1) assms(1)] have wf: "wfGrid (grid (eng sc))" by simp
  from addRandomTile_spawn [OF wf gap] sc gap show ?thesis by simp
qed

lemma findFarthestPosition_farthest:
  assumes "findFarthestPosition g cell v = Some ps" "farthest ps \<noteq> cell"
  shows "withinBounds (farthest ps) \<and> cellAvailable g (farthest ps)"
  using farthestLoop_result [of g v cell _ ps] assms by (auto simp: findFarthestPosition_def)

lemma mergeCount_append [simp]: "mergeCount (xs @ ys) = mergeCount xs + mergeCount ys"
  by (simp add: mergeCount_def)

lemma mergeCount_simps [simp]:
  "mergeCount [] = 0"
  "mergeCount (MoveAnim a b c d e # xs) = mergeCount xs"
  "mergeCount (MergeAnim a b c # xs) = Suc (mergeCount xs)"
  by (simp_all add: mergeCount_def)

lemma moveCell_tiles:
  assumes "moveCell v r c a = Some b" and "0 \<le> r" "r < 4" "0 \<le> c" "c < 4"
    and wf: "wfGrid (grid (eng a))"
  shows "tileCount (grid (eng b)) + mergeCount (animations (eng b)) =
         tileCount (grid (eng a)) + mergeCount (animations (eng a))"
  using assms(1)
proof (cases rule: moveCell_cases)
  case (merge tv ps)
  let ?g = "grid (eng a)"
  let ?nr = "nat (row (nextp ps))" and ?nc = "nat (col (nextp ps))"
  let ?g1 = "setCell ?g ?nr ?nc (Some (tv * 2))"
  from gridLookup_wf [OF wf merge(3)]
  have n: "?nr < gridSize" "?nc < gridSize" "getCell ?g ?nr ?nc = Some tv" by simp_all
  have rc: "nat r < gridSize" "nat c < gridSize" using assms(2-5) by (simp_all add: gridSize_def)
  from tileCount_setCell [OF wf n(1,2), of "Some (tv * 2)"] n(3)
  have t1: "tileCount ?g1 = tileCount ?g" by (simp add: occ_def)
  have "getCell ?g1 (nat r) (nat c) \<noteq> None"
    using merge(1) by (simp add: getCell_setCell_wf [OF wf n(1,2)])
  with tileCount_setCell [OF wfGrid_setCell [OF wf] rc, of ?nr ?nc "Some (tv * 2)" None]
  have "tileCount (setCell ?g1 (nat r) (nat c) None) + 1 = tileCount ?g1" by (simp add: occ_def)
  with t1 show ?thesis by (simp add: merge(5))
next
  case (relocate tv ps)
  let ?g = "grid (eng a)"
  let ?fr = "nat (row (farthest ps))" and ?fc = "nat (col (farthest ps))"
  let ?g1 = "setCell ?g ?fr ?fc (Some tv)"
  from findFarthestPosition_farthest [OF relocate(2,3)]
  have f: "withinBounds (farthest ps)" "cellAvailable ?g (farthest ps)" by simp_all
  then have fb: "?fr < gridSize" "?fc < gridSize" and fe: "getCell ?g ?fr ?fc = None"
    by (auto simp: withinBounds_def cellAvailable_def)
  have rc: "nat r < gridSize" "nat c < gridSize" using assms(2-5) by (simp_all add: gridSize_def)
  from relocate(3) f(1) assms(2-5) have ne: "\<not> (nat r = ?fr \<and> nat c = ?fc)"
    by (cases "farthest ps") (auto simp: withinBounds_def)
  from tileCount_setCell [OF wf fb, of "Some tv"] fe
  have t1: "tileCount ?g1 = tileCount ?g + 1" by (simp add: occ_def)
  have "getCell ?g1 (nat r) (nat c) \<noteq> None"
    using relocate(1) ne by (simp add: getCell_setCell_wf [OF wf fb])
  with tileCount_setCell [OF wfGrid_setCell [OF wf] rc, of ?fr ?fc "Some tv" None]
  have "tileCount (setCell ?g1 (nat r) (nat c) None) + 1 = tileCount ?g1" by (simp add: occ_def)
  with t1 show ?thesis by (simp add: relocate(4))
qed simp_all

lemma scanGrid_tiles:
  assumes "scanGrid d s = Some sc" "wfGrid (grid s)"
  shows "tileCount (grid (eng sc)) + mergeCount (animations (eng sc)) = tileCount (grid s)"
proof -
  let ?P = "\<lambda>a. (wfGrid (grid (eng a)) \<and> wfGrid (merged a)) \<and>
    tileCount (grid (eng a)) + mergeCount (animations (eng a)) = tileCount (grid s)"
  have "?P sc"
  proof (rule scanGrid_invariant [OF assms(1)])
    fix r c a b
    assume "0 \<le> r" "r < 4" "0 \<le> c" "c < 4" and "?P a" and "moveCell (getVector d) r c a = Some b"
    then show "?P b"
      using moveCell_wf [of "getVector d" r c a b] moveCell_tiles [of "getVector d" r c a b]
      by simp
  qed (use assms(2) in \<open>simp add: wfGrid_falseGrid\<close>)
  then show ?thesis by simp
qed

text \<open>
  C7: after a successful move in a legal direction with \<open>M\<close> merges (the merge entries
  queued by the call), the number of occupied cells is the number before, minus \<open>M\<close>,
  plus one for the spawned tile. The exception of the claim (a full grid at spawn time)
  does not arise.
\<close>

theorem tile_conservation:
  assumes "wfGrid (grid s)" and "legalDirection d" and "move d rn s = Some (True, s')"
  shows "int (tileCount (grid s')) =
         int (tileCount (grid s)) - int (mergeCount (animations s')) + 1"
proof -
  from assms(3) obtain sc where sc: "scanGrid d s = Some sc" "moved sc"
    "s' = checkGameState (snd (addRandomTile rn (eng sc)))" by (rule move_success)
  from scanGrid_leaves_gap [OF sc(1) assms(1) sc(2)] have gap: "emptyCells (grid (eng sc)) \<noteq> []" .
  from scanGrid_wf [OF sc(1) assms(1)] have wf: "wfGrid (grid (eng sc))" by simp
  from addRandomTile_spawn(2) [OF wf gap] scanGrid_tiles [OF sc(1) assms(1)] sc(3)
  show ?thesis by simp
qed

section \<open>addRandomTile\<close>

text \<open>
  C9: with the two results of \<^verbatim>\<open>Math.random()\<close> as inputs \<open>u1\<close> and \<open>u2\<close> (doubles in
  \<open>[0, 1)\<close>): on a grid without an empty cell \<^verbatim>\<open>addRandomTile\<close> returns \<open>False\<close> and changes
  nothing; otherwise it returns \<open>True\<close> and puts one tile on the cell number
  \<open>\<lfloor>u1 * n\<rfloor>\<close> (product rounded to a double) of the \<open>n\<close> empty cells. Every empty cell has
  the same share of the results, whatever its position: the \<open>j\<close>-th cell is chosen for every
  \<open>u1\<close> with \<open>j \<le> u1 * n \<le> j + 1 - 2 ^ - 49\<close> and for no \<open>u1\<close> outside
  \<open>j - 2 ^ - 49 < u1 * n < j + 1\<close> (rounding moves the lower end of the interval
  \<open>[j/n, (j+1)/n)\<close> by less than \<open>2 ^ - 49 / n\<close>). The new value is 2 exactly when \<open>u2 < 0.9\<close>
  and 4 otherwise, and every other cell and field is unchanged. The list of empty cells
  holds each empty cell of the grid once.
\<close>

theorem addRandomTile_spec:
  assumes "wfGrid (grid s)"
  shows "(emptyCells (grid s) = [] \<longrightarrow> addRandomTile (u1, u2) s = (False, s)) \<and>
         (emptyCells (grid s) \<noteq> [] \<longrightarrow>
            (let es = emptyCells (grid s); n = length es; x = numberOf u1 * real n;
                 i = nat \<lfloor>roundDouble x\<rfloor>;
                 p = es ! i; v = (if numberOf u2 < 9 / 10 then 2 else 4);
                 s' = snd (addRandomTile (u1, u2) s)
             in fst (addRandomTile (u1, u2) s) \<and>
                i < n \<and> withinBounds p \<and> cellAvailable (grid s) p \<and>
                (\<forall>j < n. (real j \<le> x \<and> x \<le> real j + 1 - 1 / 2 ^ 49 \<longrightarrow> i = j) \<and>
                          (i = j \<longrightarrow> real j - 1 / 2 ^ 49 < x \<and> x < real j + 1)) \<and>
                (\<forall>r < gridSize. \<forall>c < gridSize.
                    getCell (grid s') r c =
                      (if int r = row p \<and> int c = col p then Some v else getCell (grid s) r c)) \<and>
                s' = s\<lparr>grid := grid s'\<rparr> \<and> wfGrid (grid s'))) \<and>
         distinct (emptyCells (grid s)) \<and>
         set (emptyCells (grid s)) = {p. withinBounds p \<and> cellAvailable (grid s) p}"
proof -
  let ?es = "emptyCells (grid s)"
  let ?n = "length ?es"
  let ?x = "numberOf u1 * real ?n"
  let ?i = "nat \<lfloor>roundDouble ?x\<rfloor>"
  let ?p = "?es ! ?i"
  have full: "?es = [] \<longrightarrow> addRandomTile (u1, u2) s = (False, s)"
    by (simp add: addRandomTile_def)
  have spawn: "(let es = emptyCells (grid s); n = length es; x = numberOf u1 * real n;
                 i = nat \<lfloor>roundDouble x\<rfloor>;
                 p = es ! i; v = (if numberOf u2 < 9 / 10 then 2 else 4);
                 s' = snd (addRandomTile (u1, u2) s)
             in fst (addRandomTile (u1, u2) s) \<and>
                i < n \<and> withinBounds p \<and> cellAvailable (grid s) p \<and>
                (\<forall>j < n. (real j \<le> x \<and> x \<le> real j + 1 - 1 / 2 ^ 49 \<longrightarrow> i = j) \<and>
                          (i = j \<longrightarrow> real j - 1 / 2 ^ 49 < x \<and> x < real j + 1)) \<and>
                (\<forall>r < gridSize. \<forall>c < gridSize.
                    getCell (grid s') r c =
                      (if int r = row p \<and> int c = col p then Some v else getCell (grid s) r c)) \<and>
                s' = s\<lparr>grid := grid s'\<rparr> \<and> wfGrid (grid s'))" if ne: "?es \<noteq> []"
  proof -
    from ne have n: "0 < ?n" by simp
    have n16: "?n \<le> 16" by (rule length_emptyCells)
    from addRandomTile_index [OF ne] have i: "?i < ?n" .
    then have "?p \<in> set ?es" by simp
    then have p: "withinBounds ?p" "cellAvailable (grid s) ?p" by (simp_all add: set_emptyCells)
    then have b: "nat (row ?p) < gridSize" "nat (col ?p) < gridSize" "0 \<le> row ?p" "0 \<le> col ?p"
      by (auto simp: withinBounds_def)
    have cells: "getCell (setCell (grid s) (nat (row ?p)) (nat (col ?p)) x) r c =
        (if int r = row ?p \<and> int c = col ?p then x else getCell (grid s) r c)" for x r c
      using b by (auto simp: getCell_setCell_wf [OF assms(1) b(1,2)])
    have iv: "(real j \<le> ?x \<and> ?x \<le> real j + 1 - 1 / 2 ^ 49 \<longrightarrow> ?i = j) \<and>
              (?i = j \<longrightarrow> real j - 1 / 2 ^ 49 < ?x \<and> ?x < real j + 1)" for j
      using random_index_interval [OF n n16, where j = j and u = u1] by blast
    show ?thesis
      using ne i p iv assms(1)
      by (simp add: addRandomTile_def Let_def cells wfGrid_setCell numberOf_nine_tenths)
  qed
  from full spawn show ?thesis
    by (simp add: distinct_emptyCells set_emptyCells)
qed

section \<open>The history across successful moves\<close>

lemma addRandomTile_wf: "wfGrid (grid s) \<Longrightarrow> wfGrid (grid (snd (addRandomTile rn s)))"
  by (simp add: addRandomTile_def Let_def wfGrid_setCell)

lemma move_wf:
  assumes "move d rn s = Some (b, s')" "wfGrid (grid s)"
  shows "wfGrid (grid s')"
proof (cases b)
  case True
  with assms(1) obtain sc where sc: "scanGrid d s = Some sc"
    "s' = checkGameState (snd (addRandomTile rn (eng sc)))" by (auto elim: move_success)
  from scanGrid_wf [OF sc(1) assms(2)] sc(2) show ?thesis by (simp add: addRandomTile_wf)
next
  case False
  with assms(1) obtain sc where sc: "scanGrid d s = Some sc"
    "s' = (eng sc)\<lparr>gameHistory := butlast (gameHistory (eng sc))\<rparr>" by (auto elim: move_noop)
  from scanGrid_wf [OF sc(1) assms(2)] sc(2) show ?thesis by simp
qed

lemma init_fresh:
  "wfGrid (grid (init saved rn1 rn2 s))" "gameHistory (init saved rn1 rn2 s) = []"
  "undoCount (init saved rn1 rn2 s) = 5" "score (init saved rn1 rn2 s) = 0"
  by (simp_all add: init_def addRandomTile_wf resetGrid_def loadBestScore_def wfGrid_emptyGrid)

text \<open>
  When \<^verbatim>\<open>move\<close> returns \<open>False\<close>, the state is the one before the call with the animation
  queue emptied, except that a history of five entries has lost its oldest one:
  \<^verbatim>\<open>saveGameState\<close> pushed and shifted before the final \<^verbatim>\<open>pop\<close>.
\<close>

lemma noop_move_effect:
  assumes "move d rn s = Some (False, s')"
  shows "s' = (saveGameState (s\<lparr>animations := []\<rparr>))
           \<lparr>gameHistory := (if length (gameHistory s) \<ge> 5 then tl (gameHistory s)
                             else gameHistory s)\<rparr>"
proof -
  from assms obtain sc where sc: "scanGrid d s = Some sc" "\<not> moved sc"
    "s' = (eng sc)\<lparr>gameHistory := butlast (gameHistory (eng sc))\<rparr>" by (rule move_noop)
  from scanGrid_unmoved [OF sc(1)] sc(2) have "eng sc = saveGameState (s\<lparr>animations := []\<rparr>)"
    by simp
  with sc(3) show ?thesis by (simp add: gameHistory_saveGameState)
qed

lemma tl_lastN: "5 \<le> length A \<Longrightarrow> tl (lastN 5 A) = lastN 4 A"
proof -
  assume a: "5 \<le> length A"
  have "tl (lastN 5 A) = drop 1 (drop (length A - 5) A)" by (simp add: lastN_def drop_Suc tl_drop)
  also have "\<dots> = drop (1 + (length A - 5)) A" by (rule drop_drop)
  also from a have "1 + (length A - 5) = length A - 4" by simp
  finally show ?thesis by (simp add: lastN_def)
qed

lemma historyOf_success:
  assumes "historyOf h A"
  shows "(if length h \<ge> 5 then tl h else h) @ [x] = lastN 5 (A @ [x])"
proof (cases "5 \<le> length A")
  case True
  then have l: "lastN 5 (A @ [x]) = lastN 4 A @ [x]" by (simp add: lastN_def)
  from assms consider "h = lastN 5 A" | "h = lastN 4 A" by (auto simp: historyOf_def)
  then show ?thesis
  proof cases
    case 1
    with True have "length h = 5" by (simp add: lastN_def)
    with 1 l tl_lastN [OF True] show ?thesis by simp
  next
    case 2
    with True have "length h = 4" by (simp add: lastN_def)
    with 2 l show ?thesis by simp
  qed
next
  case False
  with assms have "h = A" by (simp add: historyOf_def lastN_def)
  with False show ?thesis by (simp add: lastN_def)
qed

lemma historyOf_noop:
  assumes "historyOf h A"
  shows "historyOf (if length h \<ge> 5 then tl h else h) A"
proof (cases "5 \<le> length A")
  case True
  from assms consider "h = lastN 5 A" | "h = lastN 4 A" by (auto simp: historyOf_def)
  then show ?thesis
  proof cases
    case 1
    with True have "length h = 5" by (simp add: lastN_def)
    with 1 True tl_lastN [OF True] show ?thesis by (simp add: historyOf_def)
  next
    case 2
    with True have "length h = 4" by (simp add: lastN_def)
    with 2 True show ?thesis by (simp add: historyOf_def)
  qed
next
  case False
  with assms have "h = A" by (simp add: historyOf_def lastN_def)
  with False assms show ?thesis by simp
qed

lemma historyOf_noop_eq:
  assumes "historyOf h A" "5 \<le> length A"
  shows "(if length h \<ge> 5 then tl h else h) = lastN 4 A"
proof -
  from assms consider "h = lastN 5 A" | "h = lastN 4 A" by (auto simp: historyOf_def)
  then show ?thesis
  proof cases
    case 1
    with assms(2) have "length h = 5" by (simp add: lastN_def)
    with 1 tl_lastN [OF assms(2)] show ?thesis by simp
  next
    case 2
    with assms(2) have "length h = 4" by (simp add: lastN_def)
    with 2 show ?thesis by simp
  qed
qed

lemma playMoves_Nil: "playMoves ms s = Some ([], t) \<Longrightarrow> t = s"
  by (cases ms) (auto split: option.splits prod.splits)

lemma gameHistory_move_noop:
  assumes "move d rn s = Some (False, s')"
  shows "gameHistory s' = (if length (gameHistory s) \<ge> 5 then tl (gameHistory s) else gameHistory s)"
  using noop_move_effect [OF assms] by simp

lemma playMoves_Cons:
  assumes "playMoves (m # ms) s = Some (tr, t)"
  obtains b s' tr' where "move (fst m) (snd m) s = Some (b, s')" "playMoves ms s' = Some (tr', t)"
    "tr = (s, b) # tr'"
  using assms by (auto split: option.splits prod.splits)

lemma playMoves_history:
  assumes "playMoves ms s = Some (tr, t)" "historyOf (gameHistory s) A"
  shows "historyOf (gameHistory t) (A @ map takeSnapshot (successes tr)) \<and>
         (tr \<noteq> [] \<and> snd (last tr) \<longrightarrow>
            gameHistory t = lastN 5 (A @ map takeSnapshot (successes tr))) \<and>
         (tr \<noteq> [] \<and> \<not> snd (last tr) \<and> 5 \<le> length (A @ map takeSnapshot (successes tr)) \<longrightarrow>
            gameHistory t = lastN 4 (A @ map takeSnapshot (successes tr)))"
  using assms
proof (induction ms arbitrary: s A tr)
  case Nil
  then show ?case by (simp add: successes_def)
next
  case (Cons m ms)
  from Cons.prems(1) obtain b s' tr' where st: "move (fst m) (snd m) s = Some (b, s')"
    "playMoves ms s' = Some (tr', t)" "tr = (s, b) # tr'"
    by (rule playMoves_Cons)
  show ?case
  proof (cases b)
    case True
    with st(1) have h': "gameHistory s' = lastN 5 (A @ [takeSnapshot s])"
      using gameHistory_move_success(1) [of "fst m" "snd m" s s'] historyOf_success [OF Cons.prems(2)]
      by simp
    then have inv: "historyOf (gameHistory s') (A @ [takeSnapshot s])" by (simp add: historyOf_def)
    from Cons.IH [OF st(2) inv] True st(3) h' playMoves_Nil [of ms s' t] st(2) show ?thesis
      by (cases "tr' = []") (auto simp: successes_def)
  next
    case False
    with st(1) have g: "gameHistory s' =
        (if length (gameHistory s) \<ge> 5 then tl (gameHistory s) else gameHistory s)"
      using gameHistory_move_noop [of "fst m" "snd m" s s'] by simp
    with historyOf_noop [OF Cons.prems(2)] have inv: "historyOf (gameHistory s') A" by simp
    show ?thesis
    proof (cases "tr' = []")
      case True
      with st(2) playMoves_Nil [of ms s' t] have "t = s'" by simp
      with True False st(3) inv g historyOf_noop_eq [OF Cons.prems(2)] show ?thesis
        by (simp add: successes_def)
    next
      case ne: False
      with Cons.IH [OF st(2) inv] False st(3) show ?thesis by (simp add: successes_def)
    qed
  qed
qed

lemma playMoves_wf:
  assumes "playMoves ms s = Some (tr, t)" "wfGrid (grid s)"
  shows "wfGrid (grid t) \<and> (\<forall>p \<in> set tr. wfGrid (grid (fst p)))"
  using assms
proof (induction ms arbitrary: s tr)
  case Nil
  then show ?case by simp
next
  case (Cons m ms)
  from Cons.prems(1) obtain b s' tr' where st: "move (fst m) (snd m) s = Some (b, s')"
    "playMoves ms s' = Some (tr', t)" "tr = (s, b) # tr'"
    by (rule playMoves_Cons)
  from move_wf [OF st(1) Cons.prems(2)] Cons.IH [OF st(2)] st(3) Cons.prems(2) show ?case by simp
qed

text \<open>
  C6: after \<open>N > 5\<close> successful moves from a fresh game the history should hold five
  snapshots, the oldest that of the state before the successful move number \<open>N - 4\<close>.
  In a play from a fresh game (any number of moves that shift nothing in between) this
  holds whenever the last move made was a successful one, and every successful move
  appends its snapshot and drops at most the oldest entry. It fails when the last move
  shifted nothing: then the history holds four snapshots, the oldest that of the state
  before the successful move number \<open>N - 3\<close>.
\<close>

theorem history_bound:
  assumes "playMoves ms (init saved rn1 rn2 s0) = Some (tr, t)"
    and "5 < length (successes tr)"
  shows "(snd (last tr) \<longrightarrow>
            length (gameHistory t) = 5 \<and>
            gameHistory t = map takeSnapshot (lastN 5 (successes tr)) \<and>
            hd (gameHistory t) = takeSnapshot (successes tr ! (length (successes tr) - 5)) \<and>
            sgrid (hd (gameHistory t)) = grid (successes tr ! (length (successes tr) - 5))) \<and>
         (\<not> snd (last tr) \<longrightarrow>
            length (gameHistory t) = 4 \<and>
            gameHistory t = map takeSnapshot (lastN 4 (successes tr)) \<and>
            hd (gameHistory t) = takeSnapshot (successes tr ! (length (successes tr) - 4)) \<and>
            sgrid (hd (gameHistory t)) = grid (successes tr ! (length (successes tr) - 4))) \<and>
         (\<forall>d rn s s'. move d rn s = Some (True, s') \<longrightarrow>
            gameHistory s' =
              (if length (gameHistory s) \<ge> 5 then tl (gameHistory s) else gameHistory s) @
              [takeSnapshot s])"
proof -
  let ?S = "successes tr"
  let ?n = "length ?S"
  from assms(2) have ne: "tr \<noteq> []" by (auto simp: successes_def)
  have "historyOf (gameHistory (init saved rn1 rn2 s0)) []"
    by (simp add: init_fresh historyOf_def lastN_def)
  note h = playMoves_history [OF assms(1) this]
  have wf: "wfGrid (grid (?S ! k))" if "k < ?n" for k
  proof -
    from that have "?S ! k \<in> set ?S" by simp
    then have "?S ! k \<in> fst ` set tr" by (auto simp: successes_def)
    with playMoves_wf [OF assms(1)] show ?thesis by (auto simp: init_fresh)
  qed
  have last5: "length (gameHistory t) = 5 \<and>
            gameHistory t = map takeSnapshot (lastN 5 ?S) \<and>
            hd (gameHistory t) = takeSnapshot (?S ! (?n - 5)) \<and>
            sgrid (hd (gameHistory t)) = grid (?S ! (?n - 5))" if "snd (last tr)"
  proof -
    from h ne that have eq: "gameHistory t = map takeSnapshot (lastN 5 ?S)"
      by (simp add: lastN_def drop_map)
    with assms(2) have l: "length (gameHistory t) = 5" by (simp add: lastN_def)
    from eq assms(2) have hd: "hd (gameHistory t) = takeSnapshot (?S ! (?n - 5))"
      by (simp add: lastN_def hd_map hd_drop_conv_nth)
    from assms(2) have "wfGrid (grid (?S ! (?n - 5)))" by (intro wf) simp
    with hd have "sgrid (hd (gameHistory t)) = grid (?S ! (?n - 5))"
      by (simp add: takeSnapshot_def copyGrid_id)
    with l eq hd show ?thesis by simp
  qed
  have last4: "length (gameHistory t) = 4 \<and>
            gameHistory t = map takeSnapshot (lastN 4 ?S) \<and>
            hd (gameHistory t) = takeSnapshot (?S ! (?n - 4)) \<and>
            sgrid (hd (gameHistory t)) = grid (?S ! (?n - 4))" if "\<not> snd (last tr)"
  proof -
    from h ne that assms(2) have eq: "gameHistory t = map takeSnapshot (lastN 4 ?S)"
      by (simp add: lastN_def drop_map)
    with assms(2) have l: "length (gameHistory t) = 4" by (simp add: lastN_def)
    from eq assms(2) have hd: "hd (gameHistory t) = takeSnapshot (?S ! (?n - 4))"
      by (simp add: lastN_def hd_map hd_drop_conv_nth)
    from assms(2) have "wfGrid (grid (?S ! (?n - 4)))" by (intro wf) simp
    with hd have "sgrid (hd (gameHistory t)) = grid (?S ! (?n - 4))"
      by (simp add: takeSnapshot_def copyGrid_id)
    with l eq hd show ?thesis by simp
  qed
  from last5 last4 gameHistory_move_success(1) show ?thesis by blast
qed

section \<open>Rows and columns in one move\<close>

lemma farthestLoop_step:
  "withinBounds nx \<Longrightarrow> cellAvailable g nx \<Longrightarrow>
   farthestLoop g v prev nx = farthestLoop g v nx \<lparr>row = row nx + row v, col = col nx + col v\<rparr>"
  by (subst farthestLoop.simps) simp

lemma farthestLoop_row:
  "farthestLoop g v prev nx = Some ps \<Longrightarrow> row v = 0 \<Longrightarrow> row prev = row nx \<Longrightarrow>
   row (farthest ps) = row nx \<and> row (nextp ps) = row nx"
proof (induction rule: farthestLoop.raw_induct [rotated 1, consumes 1])
  case (1 loop g v prev nx ps)
  show ?case
  proof (cases "withinBounds nx \<and> cellAvailable g nx")
    case True
    with 1(2) have "loop g v nx \<lparr>row = row nx + row v, col = col nx + col v\<rparr> = Some ps" by simp
    from 1(1) [OF this] 1(3) show ?thesis by simp
  next
    case False
    with 1(2,4) show ?thesis by auto
  qed
qed

lemma farthestLoop_col:
  "farthestLoop g v prev nx = Some ps \<Longrightarrow> col v = 0 \<Longrightarrow> col prev = col nx \<Longrightarrow>
   col (farthest ps) = col nx \<and> col (nextp ps) = col nx"
proof (induction rule: farthestLoop.raw_induct [rotated 1, consumes 1])
  case (1 loop g v prev nx ps)
  show ?case
  proof (cases "withinBounds nx \<and> cellAvailable g nx")
    case True
    with 1(2) have "loop g v nx \<lparr>row = row nx + row v, col = col nx + col v\<rparr> = Some ps" by simp
    from 1(1) [OF this] 1(3) show ?thesis by simp
  next
    case False
    with 1(2,4) show ?thesis by auto
  qed
qed

lemma findFarthestPosition_row:
  "findFarthestPosition g \<lparr>row = r, col = c\<rparr> v = Some ps \<Longrightarrow> row v = 0 \<Longrightarrow>
   row (farthest ps) = r \<and> row (nextp ps) = r"
  using farthestLoop_row [of g v "\<lparr>row = r, col = c\<rparr>" "\<lparr>row = r + row v, col = c + col v\<rparr>" ps]
  by (simp add: findFarthestPosition_def)

lemma findFarthestPosition_col:
  "findFarthestPosition g \<lparr>row = r, col = c\<rparr> v = Some ps \<Longrightarrow> col v = 0 \<Longrightarrow>
   col (farthest ps) = c \<and> col (nextp ps) = c"
  using farthestLoop_col [of g v "\<lparr>row = r, col = c\<rparr>" "\<lparr>row = r + row v, col = c + col v\<rparr>" ps]
  by (simp add: findFarthestPosition_def)

text \<open>A horizontal move of a cell leaves the other rows alone.\<close>

lemma setCell_other_row: "r' \<noteq> r \<Longrightarrow> setCell g r' c x ! r = g ! r"
  by (simp add: setCell_def)

lemma moveCell_other_row:
  assumes "moveCell (Vector v) r' c a = Some b" "row v = 0" "0 \<le> r'" "nat r' \<noteq> r"
  shows "grid (eng b) ! r = grid (eng a) ! r \<and> merged b ! r = merged a ! r"
  using assms(1)
proof (cases rule: moveCell_vector_cases)
  case (merge tv ps)
  from findFarthestPosition_row [OF merge(2) assms(2)] assms(3,4)
  show ?thesis by (simp add: merge(5,7) setCell_other_row)
next
  case (relocate tv ps)
  from findFarthestPosition_row [OF relocate(2) assms(2)] assms(3,4)
  show ?thesis by (simp add: relocate(4,6) setCell_other_row)
qed simp_all

text \<open>A vertical move of a cell leaves the other columns alone.\<close>

lemma setCell_other_col: "c' \<noteq> c \<Longrightarrow> setCell g r c' x ! k ! c = g ! k ! c"
  by (cases "r < length g") (auto simp: setCell_def nth_list_update not_less list_update_beyond)

lemma moveCell_other_col:
  assumes "moveCell (Vector v) r c' a = Some b" "col v = 0" "0 \<le> c'" "nat c' \<noteq> c"
  shows "grid (eng b) ! k ! c = grid (eng a) ! k ! c \<and> merged b ! k ! c = merged a ! k ! c"
  using assms(1)
proof (cases rule: moveCell_vector_cases)
  case (merge tv ps)
  from findFarthestPosition_col [OF merge(2) assms(2)] assms(3,4)
  show ?thesis by (simp add: merge(5,7) setCell_other_col)
next
  case (relocate tv ps)
  from findFarthestPosition_col [OF relocate(2) assms(2)] assms(3,4)
  show ?thesis by (simp add: relocate(4,6) setCell_other_col)
qed simp_all

text \<open>One element of a \<open>forEach\<close> changes a view of the state, the others keep it.\<close>

lemma forEach_one:
  assumes "forEach f xs a = Some b" and "distinct xs" and "y \<in> set xs"
    and other: "\<And>x s t. x \<in> set xs \<Longrightarrow> x \<noteq> y \<Longrightarrow> f x s = Some t \<Longrightarrow> view t = view s"
    and self: "\<And>s t. f y s = Some t \<Longrightarrow> view s = V \<Longrightarrow> view t = V'"
    and "view a = V"
  shows "view b = V'"
  using assms(1,2,3,6) other
proof (induction xs arbitrary: a)
  case Nil
  then show ?case by simp
next
  case (Cons x xs)
  from Cons.prems(1) obtain t where t: "f x a = Some t" "forEach f xs t = Some b"
    by (auto split: option.splits)
  show ?case
  proof (cases "x = y")
    case True
    with t self [of a t] Cons.prems(4) have vt: "view t = V'" by simp
    from True Cons.prems(2) have "y \<notin> set xs" by simp
    have "view b = view t"
    proof (rule forEach_invariant [where P = "\<lambda>s. view s = view t", OF t(2)])
      fix z s s' assume "z \<in> set xs" "view s = view t" "f z s = Some s'"
      with \<open>y \<notin> set xs\<close> Cons.prems(5) [of z s s'] show "view s' = view t" by auto
    qed simp
    with vt show ?thesis by simp
  next
    case False
    with t Cons.prems(4) Cons.prems(5) [of x a t] have vt: "view t = V" by simp
    from False Cons.prems(3) have yin: "y \<in> set xs" by simp
    from Cons.prems(2) have dist: "distinct xs" by simp
    have "\<And>z s t. z \<in> set xs \<Longrightarrow> z \<noteq> y \<Longrightarrow> f z s = Some t \<Longrightarrow> view t = view s"
      using Cons.prems(5) by (meson list.set_intros(2))
    from Cons.IH [OF t(2) dist yin vt this] show ?thesis .
  qed
qed

section \<open>A line of four equal tiles\<close>

lemmas cell_eval = moveCell_def Let_def findFarthestPosition_def farthestLoop_step
  farthestLoop_occupied withinBounds_def cellAvailable_def getCell_def gridLookup_def setCell_def
  gridSize_def

lemma wfGrid_length: "wfGrid g \<Longrightarrow> length g = 4"
  by (simp add: wfGrid_iff gridSize_def)

lemma wfGrid_row_length: "wfGrid g \<Longrightarrow> k < 4 \<Longrightarrow> length (g ! k) = 4"
  by (simp add: wfGrid_iff gridSize_def)

lemma wfGrid_setCell_iff: "wfGrid (setCell g r c x) \<longleftrightarrow> wfGrid g"
  by (cases "r < length g") (auto simp: wfGrid_iff setCell_def nth_list_update)

lemma moveCell_wf_iff:
  assumes "moveCell v r c a = Some b"
  shows "(wfGrid (grid (eng b)) \<and> wfGrid (merged b)) = (wfGrid (grid (eng a)) \<and> wfGrid (merged a))"
  using assms by (cases rule: moveCell_cases) (simp_all add: wfGrid_setCell_iff)

lemma rowView_other:
  assumes "moveCell (Vector v) r' c a = Some b" "row v = 0" "0 \<le> r'" "nat r' \<noteq> r"
  shows "rowView r b = rowView r a"
  using moveCell_wf_iff [OF assms(1)] moveCell_other_row [OF assms]
  by (simp add: rowView_def)

lemma colView_other:
  assumes "moveCell (Vector v) r c' a = Some b" "col v = 0" "0 \<le> c'" "nat c' \<noteq> c"
  shows "colView c b = colView c a"
  using moveCell_wf_iff [OF assms(1)] moveCell_other_col [OF assms]
  by (simp add: colView_def)

lemma rowView_step:
  assumes "rowView r a = (True, X, Y)"
    and "\<exists>b. moveCell v i j a = Some b \<and> grid (eng b) ! r = X' \<and> merged b ! r = Y'"
  shows "\<exists>b. moveCell v i j a = Some b \<and> rowView r b = (True, X', Y')"
proof -
  from assms(2) obtain b where b: "moveCell v i j a = Some b" "grid (eng b) ! r = X'" "merged b ! r = Y'"
    by blast
  from assms(1) moveCell_wf [OF b(1)] b show ?thesis by (simp add: rowView_def)
qed

lemma rowView_facts:
  assumes "rowView (nat r) a = (True, X, Y)" "0 \<le> r" "r < 4"
  shows "length (grid (eng a)) = 4" "length (merged a) = 4" "grid (eng a) ! nat r = X"
    "merged a ! nat r = Y" "nat r < 4"
  using assms by (auto simp: rowView_def wfGrid_length)

lemma colView_step:
  assumes "colView c a = (True, X, Y)"
    and "\<exists>b. moveCell v i j a = Some b \<and> map (\<lambda>k. grid (eng b) ! k ! c) [0, 1, 2, 3] = X' \<and>
           map (\<lambda>k. merged b ! k ! c) [0, 1, 2, 3] = Y'"
  shows "\<exists>b. moveCell v i j a = Some b \<and> colView c b = (True, X', Y')"
proof -
  from assms(2) obtain b where b: "moveCell v i j a = Some b"
    "map (\<lambda>k. grid (eng b) ! k ! c) [0, 1, 2, 3] = X'" "map (\<lambda>k. merged b ! k ! c) [0, 1, 2, 3] = Y'"
    by blast
  from assms(1) moveCell_wf [OF b(1)] b show ?thesis by (simp add: colView_def gridSize_def upt_4)
qed

lemma colView_facts:
  assumes "colView (nat c) a = (True, [x0, x1, x2, x3], [y0, y1, y2, y3])" "0 \<le> c" "c < 4"
  shows "length (grid (eng a)) = 4" "length (merged a) = 4"
    "length (grid (eng a) ! 0) = 4" "length (grid (eng a) ! 1) = 4"
    "length (grid (eng a) ! 2) = 4" "length (grid (eng a) ! 3) = 4"
    "length (merged a ! 0) = 4" "length (merged a ! 1) = 4"
    "length (merged a ! 2) = 4" "length (merged a ! 3) = 4"
    "grid (eng a) ! 0 ! nat c = x0" "grid (eng a) ! 1 ! nat c = x1"
    "grid (eng a) ! 2 ! nat c = x2" "grid (eng a) ! 3 ! nat c = x3"
    "merged a ! 0 ! nat c = y0" "merged a ! 1 ! nat c = y1"
    "merged a ! 2 ! nat c = y2" "merged a ! 3 ! nat c = y3" "nat c < 4"
    "length (grid (eng a) ! Suc 0) = 4" "length (merged a ! Suc 0) = 4"
    "grid (eng a) ! Suc 0 ! nat c = x1" "merged a ! Suc 0 ! nat c = y1"
  using assms by (auto simp: colView_def wfGrid_length wfGrid_row_length gridSize_def upt_4)

lemma forEach_four:
  "forEach f [w, x, y, z] a = Some b \<Longrightarrow>
   \<exists>a1 a2 a3. f w a = Some a1 \<and> f x a1 = Some a2 \<and> f y a2 = Some a3 \<and> f z a3 = Some b"
  by (auto split: option.splits)

text \<open>One row of a vertical move, seen from the column \<open>c\<close>.\<close>

lemma index_cases: "0 \<le> (i::int) \<Longrightarrow> i < 4 \<Longrightarrow> i = 0 \<or> i = 1 \<or> i = 2 \<or> i = 3"
  by arith

lemma column_step:
  assumes "0 \<le> c" "c < 4"
    and run: "moveRow (Vector v) cs k a = Some b" and dist: "distinct cs" and cs: "set cs = {0, 1, 2, 3}"
    and cell: "\<And>s. colView (nat c) s = V \<Longrightarrow>
                 \<exists>t. moveCell (Vector v) k c s = Some t \<and> colView (nat c) t = V'"
    and start: "colView (nat c) a = V" and v: "col v = 0"
  shows "colView (nat c) b = V'"
proof -
  from run have run': "forEach (\<lambda>j. moveCell (Vector v) k j) cs a = Some b" by (simp add: moveRow_def)
  from index_cases [OF assms(1,2)] cs have mem: "c \<in> set cs" by blast
  have other: "colView (nat c) t = colView (nat c) s"
    if "x \<in> set cs" "x \<noteq> c" "moveCell (Vector v) k x s = Some t" for x s t
  proof -
    from that(1) cs have "x = 0 \<or> x = 1 \<or> x = 2 \<or> x = 3" by blast
    with that(2) assms(1) have "0 \<le> x" "nat x \<noteq> nat c" by auto
    from colView_other [OF that(3) v this] show ?thesis .
  qed
  have self: "colView (nat c) t = V'" if "moveCell (Vector v) k c s = Some t" "colView (nat c) s = V" for s t
    using cell [OF that(2)] that(1) by auto
  from run' dist mem other self start show ?thesis
    by (rule forEach_one [where view = "colView (nat c)"])
qed

text \<open>The rows of a horizontal move, seen from the row \<open>r\<close>.\<close>

lemma row_step:
  assumes "0 \<le> r" "r < 4"
    and run: "forEach (moveRow (Vector v) cs) rs a = Some b" and dist: "distinct rs"
    and rs: "set rs = {0, 1, 2, 3}"
    and line: "\<And>s. rowView (nat r) s = V \<Longrightarrow>
                 \<exists>t. moveRow (Vector v) cs r s = Some t \<and> rowView (nat r) t = V'"
    and start: "rowView (nat r) a = V" and v: "row v = 0"
  shows "rowView (nat r) b = V'"
proof -
  from index_cases [OF assms(1,2)] rs have mem: "r \<in> set rs" by blast
  have other: "rowView (nat r) t = rowView (nat r) s"
    if "x \<in> set rs" "x \<noteq> r" "moveRow (Vector v) cs x s = Some t" for x s t
  proof -
    from that(1) rs have "x = 0 \<or> x = 1 \<or> x = 2 \<or> x = 3" by blast
    with that(2) assms(1) have x0: "0 \<le> x" "nat x \<noteq> nat r" by auto
    from that(3) have inner: "forEach (\<lambda>j. moveCell (Vector v) x j) cs s = Some t" by (simp add: moveRow_def)
    show ?thesis
    proof (rule forEach_invariant [where P = "\<lambda>u. rowView (nat r) u = rowView (nat r) s", OF inner])
      fix j p q
      assume "rowView (nat r) p = rowView (nat r) s" "moveCell (Vector v) x j p = Some q"
      with rowView_other [OF _ v x0] show "rowView (nat r) q = rowView (nat r) s" by simp
    qed simp
  qed
  have self: "rowView (nat r) t = V'" if "moveRow (Vector v) cs r s = Some t" "rowView (nat r) s = V" for s t
    using line [OF that(2)] that(1) by auto
  from run dist mem other self start show ?thesis
    by (rule forEach_one [where view = "rowView (nat r)"])
qed

lemma left_cell0:
  assumes "0 \<le> r" "r < 4"
    "rowView (nat r) a = (True, [Some 2, Some 2, Some 2, Some 2], [False, False, False, False])"
  shows "\<exists>b. moveCell (Vector \<lparr>row = 0, col = - 1\<rparr>) r 0 a = Some b \<and>
    rowView (nat r) b = (True, [Some 2, Some 2, Some 2, Some 2], [False, False, False, False])"
  by (rule rowView_step [OF assms(3)])
    (simp add: rowView_facts [OF assms(3,1,2)] assms(1,2) cell_eval)

lemma left_cell1:
  assumes "0 \<le> r" "r < 4"
    "rowView (nat r) a = (True, [Some 2, Some 2, Some 2, Some 2], [False, False, False, False])"
  shows "\<exists>b. moveCell (Vector \<lparr>row = 0, col = - 1\<rparr>) r 1 a = Some b \<and>
    rowView (nat r) b = (True, [Some 4, None, Some 2, Some 2], [True, False, False, False])"
  by (rule rowView_step [OF assms(3)])
    (simp add: rowView_facts [OF assms(3,1,2)] assms(1,2) cell_eval)

lemma left_cell2:
  assumes "0 \<le> r" "r < 4"
    "rowView (nat r) a = (True, [Some 4, None, Some 2, Some 2], [True, False, False, False])"
  shows "\<exists>b. moveCell (Vector \<lparr>row = 0, col = - 1\<rparr>) r 2 a = Some b \<and>
    rowView (nat r) b = (True, [Some 4, Some 2, None, Some 2], [True, False, False, False])"
  by (rule rowView_step [OF assms(3)])
    (simp add: rowView_facts [OF assms(3,1,2)] assms(1,2) cell_eval)

lemma left_cell3:
  assumes "0 \<le> r" "r < 4"
    "rowView (nat r) a = (True, [Some 4, Some 2, None, Some 2], [True, False, False, False])"
  shows "\<exists>b. moveCell (Vector \<lparr>row = 0, col = - 1\<rparr>) r 3 a = Some b \<and>
    rowView (nat r) b = (True, [Some 4, Some 4, None, None], [True, True, False, False])"
  by (rule rowView_step [OF assms(3)])
    (simp add: rowView_facts [OF assms(3,1,2)] assms(1,2) cell_eval)

lemma left_row:
  assumes "0 \<le> r" "r < 4"
    "rowView (nat r) a = (True, [Some 2, Some 2, Some 2, Some 2], [False, False, False, False])"
  shows "\<exists>b. moveRow (Vector \<lparr>row = 0, col = - 1\<rparr>) [0, 1, 2, 3] r a = Some b \<and>
    rowView (nat r) b = (True, [Some 4, Some 4, None, None], [True, True, False, False])"
proof -
  from left_cell0 [OF assms(1,2) assms(3)] obtain b0 where b0:
    "moveCell (Vector \<lparr>row = 0, col = - 1\<rparr>) r 0 a = Some b0"
    "rowView (nat r) b0 = (True, [Some 2, Some 2, Some 2, Some 2], [False, False, False, False])"
    by blast
  from left_cell1 [OF assms(1,2) b0(2)] obtain b1 where b1:
    "moveCell (Vector \<lparr>row = 0, col = - 1\<rparr>) r 1 b0 = Some b1"
    "rowView (nat r) b1 = (True, [Some 4, None, Some 2, Some 2], [True, False, False, False])"
    by blast
  from left_cell2 [OF assms(1,2) b1(2)] obtain b2 where b2:
    "moveCell (Vector \<lparr>row = 0, col = - 1\<rparr>) r 2 b1 = Some b2"
    "rowView (nat r) b2 = (True, [Some 4, Some 2, None, Some 2], [True, False, False, False])"
    by blast
  from left_cell3 [OF assms(1,2) b2(2)] obtain b3 where b3:
    "moveCell (Vector \<lparr>row = 0, col = - 1\<rparr>) r 3 b2 = Some b3"
    "rowView (nat r) b3 = (True, [Some 4, Some 4, None, None], [True, True, False, False])"
    by blast
  show ?thesis by (simp add: moveRow_def b0 b1 b2 b3)
qed

lemma right_cell3:
  assumes "0 \<le> r" "r < 4"
    "rowView (nat r) a = (True, [Some 2, Some 2, Some 2, Some 2], [False, False, False, False])"
  shows "\<exists>b. moveCell (Vector \<lparr>row = 0, col = 1\<rparr>) r 3 a = Some b \<and>
    rowView (nat r) b = (True, [Some 2, Some 2, Some 2, Some 2], [False, False, False, False])"
  by (rule rowView_step [OF assms(3)])
    (simp add: rowView_facts [OF assms(3,1,2)] assms(1,2) cell_eval)

lemma right_cell2:
  assumes "0 \<le> r" "r < 4"
    "rowView (nat r) a = (True, [Some 2, Some 2, Some 2, Some 2], [False, False, False, False])"
  shows "\<exists>b. moveCell (Vector \<lparr>row = 0, col = 1\<rparr>) r 2 a = Some b \<and>
    rowView (nat r) b = (True, [Some 2, Some 2, None, Some 4], [False, False, False, True])"
  by (rule rowView_step [OF assms(3)])
    (simp add: rowView_facts [OF assms(3,1,2)] assms(1,2) cell_eval)

lemma right_cell1:
  assumes "0 \<le> r" "r < 4"
    "rowView (nat r) a = (True, [Some 2, Some 2, None, Some 4], [False, False, False, True])"
  shows "\<exists>b. moveCell (Vector \<lparr>row = 0, col = 1\<rparr>) r 1 a = Some b \<and>
    rowView (nat r) b = (True, [Some 2, None, Some 2, Some 4], [False, False, False, True])"
  by (rule rowView_step [OF assms(3)])
    (simp add: rowView_facts [OF assms(3,1,2)] assms(1,2) cell_eval)

lemma right_cell0:
  assumes "0 \<le> r" "r < 4"
    "rowView (nat r) a = (True, [Some 2, None, Some 2, Some 4], [False, False, False, True])"
  shows "\<exists>b. moveCell (Vector \<lparr>row = 0, col = 1\<rparr>) r 0 a = Some b \<and>
    rowView (nat r) b = (True, [None, None, Some 4, Some 4], [False, False, True, True])"
  by (rule rowView_step [OF assms(3)])
    (simp add: rowView_facts [OF assms(3,1,2)] assms(1,2) cell_eval)

lemma right_row:
  assumes "0 \<le> r" "r < 4"
    "rowView (nat r) a = (True, [Some 2, Some 2, Some 2, Some 2], [False, False, False, False])"
  shows "\<exists>b. moveRow (Vector \<lparr>row = 0, col = 1\<rparr>) [3, 2, 1, 0] r a = Some b \<and>
    rowView (nat r) b = (True, [None, None, Some 4, Some 4], [False, False, True, True])"
proof -
  from right_cell3 [OF assms(1,2) assms(3)] obtain b0 where b0:
    "moveCell (Vector \<lparr>row = 0, col = 1\<rparr>) r 3 a = Some b0"
    "rowView (nat r) b0 = (True, [Some 2, Some 2, Some 2, Some 2], [False, False, False, False])"
    by blast
  from right_cell2 [OF assms(1,2) b0(2)] obtain b1 where b1:
    "moveCell (Vector \<lparr>row = 0, col = 1\<rparr>) r 2 b0 = Some b1"
    "rowView (nat r) b1 = (True, [Some 2, Some 2, None, Some 4], [False, False, False, True])"
    by blast
  from right_cell1 [OF assms(1,2) b1(2)] obtain b2 where b2:
    "moveCell (Vector \<lparr>row = 0, col = 1\<rparr>) r 1 b1 = Some b2"
    "rowView (nat r) b2 = (True, [Some 2, None, Some 2, Some 4], [False, False, False, True])"
    by blast
  from right_cell0 [OF assms(1,2) b2(2)] obtain b3 where b3:
    "moveCell (Vector \<lparr>row = 0, col = 1\<rparr>) r 0 b2 = Some b3"
    "rowView (nat r) b3 = (True, [None, None, Some 4, Some 4], [False, False, True, True])"
    by blast
  show ?thesis by (simp add: moveRow_def b0 b1 b2 b3)
qed

lemma up_cell0:
  assumes "0 \<le> c" "c < 4"
    "colView (nat c) a = (True, [Some 2, Some 2, Some 2, Some 2], [False, False, False, False])"
  shows "\<exists>b. moveCell (Vector \<lparr>row = - 1, col = 0\<rparr>) 0 c a = Some b \<and>
    colView (nat c) b = (True, [Some 2, Some 2, Some 2, Some 2], [False, False, False, False])"
  by (rule colView_step [OF assms(3)])
    (simp add: colView_facts [OF assms(3,1,2)] assms(1,2) cell_eval)

lemma up_cell1:
  assumes "0 \<le> c" "c < 4"
    "colView (nat c) a = (True, [Some 2, Some 2, Some 2, Some 2], [False, False, False, False])"
  shows "\<exists>b. moveCell (Vector \<lparr>row = - 1, col = 0\<rparr>) 1 c a = Some b \<and>
    colView (nat c) b = (True, [Some 4, None, Some 2, Some 2], [True, False, False, False])"
  by (rule colView_step [OF assms(3)])
    (simp add: colView_facts [OF assms(3,1,2)] assms(1,2) cell_eval)

lemma up_cell2:
  assumes "0 \<le> c" "c < 4"
    "colView (nat c) a = (True, [Some 4, None, Some 2, Some 2], [True, False, False, False])"
  shows "\<exists>b. moveCell (Vector \<lparr>row = - 1, col = 0\<rparr>) 2 c a = Some b \<and>
    colView (nat c) b = (True, [Some 4, Some 2, None, Some 2], [True, False, False, False])"
  by (rule colView_step [OF assms(3)])
    (simp add: colView_facts [OF assms(3,1,2)] assms(1,2) cell_eval)

lemma up_cell3:
  assumes "0 \<le> c" "c < 4"
    "colView (nat c) a = (True, [Some 4, Some 2, None, Some 2], [True, False, False, False])"
  shows "\<exists>b. moveCell (Vector \<lparr>row = - 1, col = 0\<rparr>) 3 c a = Some b \<and>
    colView (nat c) b = (True, [Some 4, Some 4, None, None], [True, True, False, False])"
  by (rule colView_step [OF assms(3)])
    (simp add: colView_facts [OF assms(3,1,2)] assms(1,2) cell_eval)

lemma up_row0:
  assumes "0 \<le> c" "c < 4"
    and "moveRow (Vector \<lparr>row = - 1, col = 0\<rparr>) cs 0 a = Some b" and "distinct cs" and "set cs = {0, 1, 2, 3}"
    and "colView (nat c) a = (True, [Some 2, Some 2, Some 2, Some 2], [False, False, False, False])"
  shows "colView (nat c) b = (True, [Some 2, Some 2, Some 2, Some 2], [False, False, False, False])"
  by (rule column_step [OF assms(1-5) up_cell0 [OF assms(1,2)] assms(6)]) simp_all

lemma up_row1:
  assumes "0 \<le> c" "c < 4"
    and "moveRow (Vector \<lparr>row = - 1, col = 0\<rparr>) cs 1 a = Some b" and "distinct cs" and "set cs = {0, 1, 2, 3}"
    and "colView (nat c) a = (True, [Some 2, Some 2, Some 2, Some 2], [False, False, False, False])"
  shows "colView (nat c) b = (True, [Some 4, None, Some 2, Some 2], [True, False, False, False])"
  by (rule column_step [OF assms(1-5) up_cell1 [OF assms(1,2)] assms(6)]) simp_all

lemma up_row2:
  assumes "0 \<le> c" "c < 4"
    and "moveRow (Vector \<lparr>row = - 1, col = 0\<rparr>) cs 2 a = Some b" and "distinct cs" and "set cs = {0, 1, 2, 3}"
    and "colView (nat c) a = (True, [Some 4, None, Some 2, Some 2], [True, False, False, False])"
  shows "colView (nat c) b = (True, [Some 4, Some 2, None, Some 2], [True, False, False, False])"
  by (rule column_step [OF assms(1-5) up_cell2 [OF assms(1,2)] assms(6)]) simp_all

lemma up_row3:
  assumes "0 \<le> c" "c < 4"
    and "moveRow (Vector \<lparr>row = - 1, col = 0\<rparr>) cs 3 a = Some b" and "distinct cs" and "set cs = {0, 1, 2, 3}"
    and "colView (nat c) a = (True, [Some 4, Some 2, None, Some 2], [True, False, False, False])"
  shows "colView (nat c) b = (True, [Some 4, Some 4, None, None], [True, True, False, False])"
  by (rule column_step [OF assms(1-5) up_cell3 [OF assms(1,2)] assms(6)]) simp_all

lemma up_column:
  assumes "0 \<le> c" "c < 4"
    and "forEach (moveRow (Vector \<lparr>row = - 1, col = 0\<rparr>) cs) [0, 1, 2, 3] a = Some b" and "distinct cs" and "set cs = {0, 1, 2, 3}"
    and "colView (nat c) a = (True, [Some 2, Some 2, Some 2, Some 2], [False, False, False, False])"
  shows "colView (nat c) b = (True, [Some 4, Some 4, None, None], [True, True, False, False])"
proof -
  from assms(3) obtain a1 a2 a3 where
    b0: "moveRow (Vector \<lparr>row = - 1, col = 0\<rparr>) cs 0 a = Some a1" and
    b1: "moveRow (Vector \<lparr>row = - 1, col = 0\<rparr>) cs 1 a1 = Some a2" and
    b2: "moveRow (Vector \<lparr>row = - 1, col = 0\<rparr>) cs 2 a2 = Some a3" and
    b3: "moveRow (Vector \<lparr>row = - 1, col = 0\<rparr>) cs 3 a3 = Some b"
    by (blast dest: forEach_four)
  note v1 = up_row0 [OF assms(1,2) b0 assms(4,5) assms(6)]
  note v2 = up_row1 [OF assms(1,2) b1 assms(4,5) v1]
  note v3 = up_row2 [OF assms(1,2) b2 assms(4,5) v2]
  note v4 = up_row3 [OF assms(1,2) b3 assms(4,5) v3]
  from v4 show ?thesis .
qed

lemma down_cell3:
  assumes "0 \<le> c" "c < 4"
    "colView (nat c) a = (True, [Some 2, Some 2, Some 2, Some 2], [False, False, False, False])"
  shows "\<exists>b. moveCell (Vector \<lparr>row = 1, col = 0\<rparr>) 3 c a = Some b \<and>
    colView (nat c) b = (True, [Some 2, Some 2, Some 2, Some 2], [False, False, False, False])"
  by (rule colView_step [OF assms(3)])
    (simp add: colView_facts [OF assms(3,1,2)] assms(1,2) cell_eval)

lemma down_cell2:
  assumes "0 \<le> c" "c < 4"
    "colView (nat c) a = (True, [Some 2, Some 2, Some 2, Some 2], [False, False, False, False])"
  shows "\<exists>b. moveCell (Vector \<lparr>row = 1, col = 0\<rparr>) 2 c a = Some b \<and>
    colView (nat c) b = (True, [Some 2, Some 2, None, Some 4], [False, False, False, True])"
  by (rule colView_step [OF assms(3)])
    (simp add: colView_facts [OF assms(3,1,2)] assms(1,2) cell_eval)

lemma down_cell1:
  assumes "0 \<le> c" "c < 4"
    "colView (nat c) a = (True, [Some 2, Some 2, None, Some 4], [False, False, False, True])"
  shows "\<exists>b. moveCell (Vector \<lparr>row = 1, col = 0\<rparr>) 1 c a = Some b \<and>
    colView (nat c) b = (True, [Some 2, None, Some 2, Some 4], [False, False, False, True])"
  by (rule colView_step [OF assms(3)])
    (simp add: colView_facts [OF assms(3,1,2)] assms(1,2) cell_eval)

lemma down_cell0:
  assumes "0 \<le> c" "c < 4"
    "colView (nat c) a = (True, [Some 2, None, Some 2, Some 4], [False, False, False, True])"
  shows "\<exists>b. moveCell (Vector \<lparr>row = 1, col = 0\<rparr>) 0 c a = Some b \<and>
    colView (nat c) b = (True, [None, None, Some 4, Some 4], [False, False, True, True])"
  by (rule colView_step [OF assms(3)])
    (simp add: colView_facts [OF assms(3,1,2)] assms(1,2) cell_eval)

lemma down_row3:
  assumes "0 \<le> c" "c < 4"
    and "moveRow (Vector \<lparr>row = 1, col = 0\<rparr>) cs 3 a = Some b" and "distinct cs" and "set cs = {0, 1, 2, 3}"
    and "colView (nat c) a = (True, [Some 2, Some 2, Some 2, Some 2], [False, False, False, False])"
  shows "colView (nat c) b = (True, [Some 2, Some 2, Some 2, Some 2], [False, False, False, False])"
  by (rule column_step [OF assms(1-5) down_cell3 [OF assms(1,2)] assms(6)]) simp_all

lemma down_row2:
  assumes "0 \<le> c" "c < 4"
    and "moveRow (Vector \<lparr>row = 1, col = 0\<rparr>) cs 2 a = Some b" and "distinct cs" and "set cs = {0, 1, 2, 3}"
    and "colView (nat c) a = (True, [Some 2, Some 2, Some 2, Some 2], [False, False, False, False])"
  shows "colView (nat c) b = (True, [Some 2, Some 2, None, Some 4], [False, False, False, True])"
  by (rule column_step [OF assms(1-5) down_cell2 [OF assms(1,2)] assms(6)]) simp_all

lemma down_row1:
  assumes "0 \<le> c" "c < 4"
    and "moveRow (Vector \<lparr>row = 1, col = 0\<rparr>) cs 1 a = Some b" and "distinct cs" and "set cs = {0, 1, 2, 3}"
    and "colView (nat c) a = (True, [Some 2, Some 2, None, Some 4], [False, False, False, True])"
  shows "colView (nat c) b = (True, [Some 2, None, Some 2, Some 4], [False, False, False, True])"
  by (rule column_step [OF assms(1-5) down_cell1 [OF assms(1,2)] assms(6)]) simp_all

lemma down_row0:
  assumes "0 \<le> c" "c < 4"
    and "moveRow (Vector \<lparr>row = 1, col = 0\<rparr>) cs 0 a = Some b" and "distinct cs" and "set cs = {0, 1, 2, 3}"
    and "colView (nat c) a = (True, [Some 2, None, Some 2, Some 4], [False, False, False, True])"
  shows "colView (nat c) b = (True, [None, None, Some 4, Some 4], [False, False, True, True])"
  by (rule column_step [OF assms(1-5) down_cell0 [OF assms(1,2)] assms(6)]) simp_all

lemma down_column:
  assumes "0 \<le> c" "c < 4"
    and "forEach (moveRow (Vector \<lparr>row = 1, col = 0\<rparr>) cs) [3, 2, 1, 0] a = Some b" and "distinct cs" and "set cs = {0, 1, 2, 3}"
    and "colView (nat c) a = (True, [Some 2, Some 2, Some 2, Some 2], [False, False, False, False])"
  shows "colView (nat c) b = (True, [None, None, Some 4, Some 4], [False, False, True, True])"
proof -
  from assms(3) obtain a1 a2 a3 where
    b0: "moveRow (Vector \<lparr>row = 1, col = 0\<rparr>) cs 3 a = Some a1" and
    b1: "moveRow (Vector \<lparr>row = 1, col = 0\<rparr>) cs 2 a1 = Some a2" and
    b2: "moveRow (Vector \<lparr>row = 1, col = 0\<rparr>) cs 1 a2 = Some a3" and
    b3: "moveRow (Vector \<lparr>row = 1, col = 0\<rparr>) cs 0 a3 = Some b"
    by (blast dest: forEach_four)
  note v1 = down_row3 [OF assms(1,2) b0 assms(4,5) assms(6)]
  note v2 = down_row2 [OF assms(1,2) b1 assms(4,5) v1]
  note v3 = down_row1 [OF assms(1,2) b2 assms(4,5) v2]
  note v4 = down_row0 [OF assms(1,2) b3 assms(4,5) v3]
  from v4 show ?thesis .
qed

lemma column_nth: "length g = n \<Longrightarrow> map (\<lambda>k. g ! k ! c) [0..<n] = column g c"
  by (simp add: column_def list_eq_iff_nth_eq)

lemma scan_start:
  "scanGrid d s = Some sc \<Longrightarrow>
   forEach (moveRow (getVector d) (cols (buildTraversals (getVector d))))
     (rows (buildTraversals (getVector d)))
     \<lparr>eng = saveGameState (s\<lparr>animations := []\<rparr>), moved = False,
      merged = map (\<lambda>r. map (\<lambda>c. False) [0..<gridSize]) [0..<gridSize]\<rparr> = Some sc"
  by (simp add: scanGrid_def Let_def)

lemma rowView_start:
  assumes "wfGrid (grid s)" "r < gridSize"
  shows "rowView (nat (int r))
     \<lparr>eng = saveGameState (s\<lparr>animations := []\<rparr>), moved = False,
      merged = map (\<lambda>r. map (\<lambda>c. False) [0..<gridSize]) [0..<gridSize]\<rparr> =
     (True, grid s ! r, [False, False, False, False])"
  using assms by (simp add: rowView_def wfGrid_falseGrid) (simp add: gridSize_def upt_4)

lemma falseGrid_column:
  "c < gridSize \<Longrightarrow>
   map (\<lambda>k. map (\<lambda>r. map (\<lambda>c. False) [0..<gridSize]) [0..<gridSize] ! k ! c) [0..<gridSize] =
   [False, False, False, False]"
proof -
  assume "c < gridSize"
  then have "map (\<lambda>k. map (\<lambda>r. map (\<lambda>c. False) [0..<gridSize]) [0..<gridSize] ! k ! c)
      [0..<gridSize] = replicate gridSize False"
    by (simp add: list_eq_iff_nth_eq)
  also have "replicate gridSize False = [False, False, False, False]"
    by (simp add: gridSize_def numeral_eq_Suc)
  finally show ?thesis .
qed

lemma colView_start:
  assumes "wfGrid (grid s)" "c < gridSize"
  shows "colView (nat (int c))
     \<lparr>eng = saveGameState (s\<lparr>animations := []\<rparr>), moved = False,
      merged = map (\<lambda>r. map (\<lambda>c. False) [0..<gridSize]) [0..<gridSize]\<rparr> =
     (True, column (grid s) c, [False, False, False, False])"
proof -
  from assms(1) have "length (grid s) = gridSize" by (simp add: wfGrid_iff)
  from column_nth [OF this] assms falseGrid_column [OF assms(2)] show ?thesis
    by (simp add: colView_def wfGrid_falseGrid)
qed

lemma scan_left:
  assumes "wfGrid (grid s)" "r < gridSize" "grid s ! r = [Some 2, Some 2, Some 2, Some 2]"
    and "scanGrid ''left'' s = Some sc"
  shows "grid (eng sc) ! r = [Some 4, Some 4, None, None] \<and>
         merged sc ! r = [True, True, False, False]"
proof -
  from scan_start [OF assms(4)]
  have run: "forEach (moveRow (Vector \<lparr>row = 0, col = - 1\<rparr>) [0, 1, 2, 3]) [0, 1, 2, 3]
     \<lparr>eng = saveGameState (s\<lparr>animations := []\<rparr>), moved = False,
      merged = map (\<lambda>r. map (\<lambda>c. False) [0..<gridSize]) [0..<gridSize]\<rparr> = Some sc"
    by (simp add: getVector_def buildTraversals_def gridSize_def upt_4)
  from rowView_start [OF assms(1,2)] assms(3)
  have start: "rowView (nat (int r))
     \<lparr>eng = saveGameState (s\<lparr>animations := []\<rparr>), moved = False,
      merged = map (\<lambda>r. map (\<lambda>c. False) [0..<gridSize]) [0..<gridSize]\<rparr> =
     (True, [Some 2, Some 2, Some 2, Some 2], [False, False, False, False])" by simp
  from assms(2) have b: "0 \<le> int r" "int r < 4" by (simp_all add: gridSize_def)
  have "rowView (nat (int r)) sc =
      (True, [Some 4, Some 4, None, None], [True, True, False, False])"
    by (rule row_step [OF b run _ _ left_row [OF b] start]) simp_all
  then show ?thesis by (simp add: rowView_def)
qed

lemma scan_right:
  assumes "wfGrid (grid s)" "r < gridSize" "grid s ! r = [Some 2, Some 2, Some 2, Some 2]"
    and "scanGrid ''right'' s = Some sc"
  shows "grid (eng sc) ! r = [None, None, Some 4, Some 4] \<and>
         merged sc ! r = [False, False, True, True]"
proof -
  from scan_start [OF assms(4)]
  have run: "forEach (moveRow (Vector \<lparr>row = 0, col = 1\<rparr>) [3, 2, 1, 0]) [0, 1, 2, 3]
     \<lparr>eng = saveGameState (s\<lparr>animations := []\<rparr>), moved = False,
      merged = map (\<lambda>r. map (\<lambda>c. False) [0..<gridSize]) [0..<gridSize]\<rparr> = Some sc"
    by (simp add: getVector_def buildTraversals_def gridSize_def upt_4)
  from rowView_start [OF assms(1,2)] assms(3)
  have start: "rowView (nat (int r))
     \<lparr>eng = saveGameState (s\<lparr>animations := []\<rparr>), moved = False,
      merged = map (\<lambda>r. map (\<lambda>c. False) [0..<gridSize]) [0..<gridSize]\<rparr> =
     (True, [Some 2, Some 2, Some 2, Some 2], [False, False, False, False])" by simp
  from assms(2) have b: "0 \<le> int r" "int r < 4" by (simp_all add: gridSize_def)
  have "rowView (nat (int r)) sc =
      (True, [None, None, Some 4, Some 4], [False, False, True, True])"
    by (rule row_step [OF b run _ _ right_row [OF b] start]) simp_all
  then show ?thesis by (simp add: rowView_def)
qed

lemma scan_up:
  assumes "wfGrid (grid s)" "c < gridSize" "column (grid s) c = [Some 2, Some 2, Some 2, Some 2]"
    and "scanGrid ''up'' s = Some sc"
  shows "column (grid (eng sc)) c = [Some 4, Some 4, None, None] \<and>
         column (merged sc) c = [True, True, False, False]"
proof -
  from scan_start [OF assms(4)]
  have run: "forEach (moveRow (Vector \<lparr>row = - 1, col = 0\<rparr>) [0, 1, 2, 3]) [0, 1, 2, 3]
     \<lparr>eng = saveGameState (s\<lparr>animations := []\<rparr>), moved = False,
      merged = map (\<lambda>r. map (\<lambda>c. False) [0..<gridSize]) [0..<gridSize]\<rparr> = Some sc"
    by (simp add: getVector_def buildTraversals_def gridSize_def upt_4)
  from colView_start [OF assms(1,2)] assms(3)
  have start: "colView (nat (int c))
     \<lparr>eng = saveGameState (s\<lparr>animations := []\<rparr>), moved = False,
      merged = map (\<lambda>r. map (\<lambda>c. False) [0..<gridSize]) [0..<gridSize]\<rparr> =
     (True, [Some 2, Some 2, Some 2, Some 2], [False, False, False, False])" by simp
  from assms(2) have b: "0 \<le> int c" "int c < 4" by (simp_all add: gridSize_def)
  have v: "colView (nat (int c)) sc =
      (True, [Some 4, Some 4, None, None], [True, True, False, False])"
    by (rule up_column [OF b run _ _ start]) simp_all
  from scanGrid_wf [OF assms(4,1)] have "length (grid (eng sc)) = gridSize" "length (merged sc) = gridSize"
    by (simp_all add: wfGrid_iff)
  from column_nth [OF this(1)] column_nth [OF this(2)] v show ?thesis by (simp add: colView_def)
qed

lemma scan_down:
  assumes "wfGrid (grid s)" "c < gridSize" "column (grid s) c = [Some 2, Some 2, Some 2, Some 2]"
    and "scanGrid ''down'' s = Some sc"
  shows "column (grid (eng sc)) c = [None, None, Some 4, Some 4] \<and>
         column (merged sc) c = [False, False, True, True]"
proof -
  from scan_start [OF assms(4)]
  have run: "forEach (moveRow (Vector \<lparr>row = 1, col = 0\<rparr>) [0, 1, 2, 3]) [3, 2, 1, 0]
     \<lparr>eng = saveGameState (s\<lparr>animations := []\<rparr>), moved = False,
      merged = map (\<lambda>r. map (\<lambda>c. False) [0..<gridSize]) [0..<gridSize]\<rparr> = Some sc"
    by (simp add: getVector_def buildTraversals_def gridSize_def upt_4)
  from colView_start [OF assms(1,2)] assms(3)
  have start: "colView (nat (int c))
     \<lparr>eng = saveGameState (s\<lparr>animations := []\<rparr>), moved = False,
      merged = map (\<lambda>r. map (\<lambda>c. False) [0..<gridSize]) [0..<gridSize]\<rparr> =
     (True, [Some 2, Some 2, Some 2, Some 2], [False, False, False, False])" by simp
  from assms(2) have b: "0 \<le> int c" "int c < 4" by (simp_all add: gridSize_def)
  have v: "colView (nat (int c)) sc =
      (True, [None, None, Some 4, Some 4], [False, False, True, True])"
    by (rule down_column [OF b run _ _ start]) simp_all
  from scanGrid_wf [OF assms(4,1)] have "length (grid (eng sc)) = gridSize" "length (merged sc) = gridSize"
    by (simp_all add: wfGrid_iff)
  from column_nth [OF this(1)] column_nth [OF this(2)] v show ?thesis by (simp add: colView_def)
qed

lemma mergeTargets_append: "mergeTargets (xs @ ys) = mergeTargets xs @ mergeTargets ys"
  by (induction xs rule: mergeTargets.induct) simp_all

lemma nth_setCell:
  "r < length g \<Longrightarrow> c < length (g ! r) \<Longrightarrow>
   setCell g r c x ! r' ! c' = (if r' = r \<and> c' = c then x else g ! r' ! c')"
  by (auto simp: setCell_def nth_list_update)

lemma moveCell_marksCover:
  assumes "moveCell v r c a = Some b" "wfGrid (grid (eng a)) \<and> wfGrid (merged a)" "marksCover a"
  shows "marksCover b"
  using assms(1)
proof (cases rule: moveCell_cases)
  case (merge tv ps)
  let ?nr = "nat (row (nextp ps))" and ?nc = "nat (col (nextp ps))"
  from assms(2) have wg: "wfGrid (grid (eng a))" and wm: "wfGrid (merged a)" by simp_all
  from gridLookup_wf [OF wg merge(3)] have n: "?nr < gridSize" "?nc < gridSize" by simp_all
  from merge(3) have nn: "0 \<le> row (nextp ps)" "0 \<le> col (nextp ps)"
    by (auto simp: gridLookup_def split: if_splits)
  from wm n have len: "?nr < length (merged a)" "?nc < length (merged a ! ?nr)"
    by (simp_all add: wfGrid_iff)
  have new: "(row (nextp ps), col (nextp ps)) \<notin> set (mergeTargets (animations (eng a)))"
    using assms(3) merge(4) by (auto simp: marksCover_def)
  show ?thesis
    using assms(3) new nn
    by (auto simp: marksCover_def merge(5,7) mergeTargets_append nth_setCell [OF len])
next
  case (relocate tv ps)
  with assms(3) show ?thesis by (simp add: marksCover_def mergeTargets_append)
qed (use assms(3) in simp_all)

lemma scanGrid_marksCover:
  assumes "scanGrid d s = Some sc" "wfGrid (grid s)"
  shows "marksCover sc"
proof -
  have "(wfGrid (grid (eng sc)) \<and> wfGrid (merged sc)) \<and> marksCover sc"
  proof (rule scanGrid_invariant [OF assms(1)])
    fix r c a b
    assume "(wfGrid (grid (eng a)) \<and> wfGrid (merged a)) \<and> marksCover a"
      and "moveCell (getVector d) r c a = Some b"
    then show "(wfGrid (grid (eng b)) \<and> wfGrid (merged b)) \<and> marksCover b"
      using moveCell_wf [of "getVector d" r c a b] moveCell_marksCover [of "getVector d" r c a b]
      by blast
  qed (use assms(2) in \<open>simp add: wfGrid_falseGrid marksCover_def\<close>)
  then show ?thesis by simp
qed

text \<open>A tile that came out of a merge is not moved again by the same scan.\<close>

lemma reusedTarget_append:
  "reusedTarget S (as @ bs) \<longleftrightarrow>
     reusedTarget S as \<or> reusedTarget (S \<union> set (mergeTargets as)) bs"
  by (induction S as rule: reusedTarget.induct) simp_all

lemma farthestLoop_ahead:
  "farthestLoop g v prev nx = Some ps \<Longrightarrow> legalVector v \<Longrightarrow> ahead v cell nx \<Longrightarrow>
   ahead v cell (nextp ps)"
proof (induction rule: farthestLoop.raw_induct [rotated 1, consumes 1])
  case (1 loop g v prev nx ps)
  show ?case
  proof (cases "withinBounds nx \<and> cellAvailable g nx")
    case True
    with 1(2) have run: "loop g v nx \<lparr>row = row nx + row v, col = col nx + col v\<rparr> = Some ps"
      by simp
    from 1(3,4) have "ahead v cell \<lparr>row = row nx + row v, col = col nx + col v\<rparr>"
      by (auto simp: legalVector_def ahead_def)
    from 1(1) [OF run 1(3) this] show ?thesis .
  next
    case False
    with 1(2,4) show ?thesis by auto
  qed
qed

lemma findFarthestPosition_ahead:
  assumes "findFarthestPosition g cell v = Some ps" "legalVector v"
  shows "ahead v cell (nextp ps)"
proof -
  from assms(2) have "ahead v cell \<lparr>row = row cell + row v, col = col cell + col v\<rparr>"
    by (auto simp: legalVector_def ahead_def)
  from farthestLoop_ahead [OF assms(1) [unfolded findFarthestPosition_def] assms(2) this]
  show ?thesis .
qed

lemma forEach_prefix_invariant:
  assumes "forEach f xs s = Some s'" and "P [] s"
    and "\<And>pre x suf a b. xs = pre @ x # suf \<Longrightarrow> P pre a \<Longrightarrow> f x a = Some b \<Longrightarrow> P (pre @ [x]) b"
  shows "P xs s'"
proof -
  have "P (pre @ ys) s'" if "forEach f ys a = Some s'" "xs = pre @ ys" "P pre a" for ys pre a
    using that
  proof (induction ys arbitrary: pre a)
    case Nil
    then show ?case by simp
  next
    case (Cons y ys)
    from Cons.prems(1) obtain b where b: "f y a = Some b" "forEach f ys b = Some s'"
      by (auto split: option.splits)
    from assms(3) [OF Cons.prems(2,3) b(1)] have "P (pre @ [y]) b" .
    from Cons.IH [OF b(2) _ this] Cons.prems(2) show ?case by simp
  qed
  from this [OF assms(1), of "[]"] assms(2) show ?thesis by simp
qed

lemma before_in_ascending:
  assumes "sorted_wrt (<) (pre @ y # suf)" "z \<in> set (pre @ y # suf)" "z < (y::int)"
  shows "z \<in> set pre"
  using assms by (auto simp: sorted_wrt_append)

lemma before_in_descending:
  assumes "sorted_wrt (>) (pre @ y # suf)" "z \<in> set (pre @ y # suf)" "z > (y::int)"
  shows "z \<in> set pre"
  using assms by (auto simp: sorted_wrt_append)

lemma traversal_lists:
  "legalVector v \<Longrightarrow>
     (rows (buildTraversals (Vector v)) = (if row v = 1 then [3, 2, 1, 0] else [0, 1, 2, 3])) \<and>
     (cols (buildTraversals (Vector v)) = (if col v = 1 then [3, 2, 1, 0] else [0, 1, 2, 3]))"
  by (simp add: buildTraversals_def gridSize_def upt_4 Let_def)

lemma ahead_seen:
  assumes v: "legalVector v"
    and rs: "rows (buildTraversals (Vector v)) = rpre @ x # rsuf"
    and cs: "cols (buildTraversals (Vector v)) = cpre @ y # csuf"
    and a: "ahead v \<lparr>row = x, col = y\<rparr> t" and w: "withinBounds t"
  shows "seen rpre x cpre (row t, col t)"
proof -
  from w have b: "0 \<le> row t" "row t < 4" "0 \<le> col t" "col t < 4"
    by (simp_all add: withinBounds_def gridSize_def)
  from index_cases [OF b(1,2)] have rin: "row t \<in> {0, 1, 2, 3}" by auto
  from index_cases [OF b(3,4)] have cin: "col t \<in> {0, 1, 2, 3}" by auto
  from v consider "v = \<lparr>row = -1, col = 0\<rparr>" | "v = \<lparr>row = 1, col = 0\<rparr>"
    | "v = \<lparr>row = 0, col = -1\<rparr>" | "v = \<lparr>row = 0, col = 1\<rparr>"
    by (auto simp: legalVector_def)
  then show ?thesis
  proof cases
    case 1
    with a have o: "col t = y" and lt: "row t < x" by (simp_all add: ahead_def)
    from 1 rs traversal_lists [OF v] have e: "rpre @ x # rsuf = [0, 1, 2, 3]" by simp
    have s: "sorted_wrt (<) (rpre @ x # rsuf)" unfolding e by simp
    have m: "row t \<in> set (rpre @ x # rsuf)" unfolding e using rin by auto
    from before_in_ascending [OF s m lt] o b show ?thesis by (simp add: seen_def)
  next
    case 2
    with a have o: "col t = y" and lt: "row t > x" by (simp_all add: ahead_def)
    from 2 rs traversal_lists [OF v] have e: "rpre @ x # rsuf = [3, 2, 1, 0]" by simp
    have s: "sorted_wrt (>) (rpre @ x # rsuf)" unfolding e by simp
    have m: "row t \<in> set (rpre @ x # rsuf)" unfolding e using rin by auto
    from before_in_descending [OF s m lt] o b show ?thesis by (simp add: seen_def)
  next
    case 3
    with a have o: "row t = x" and lt: "col t < y" by (simp_all add: ahead_def)
    from 3 cs traversal_lists [OF v] have e: "cpre @ y # csuf = [0, 1, 2, 3]" by simp
    have s: "sorted_wrt (<) (cpre @ y # csuf)" unfolding e by simp
    have m: "col t \<in> set (cpre @ y # csuf)" unfolding e using cin by auto
    from before_in_ascending [OF s m lt] o b show ?thesis by (simp add: seen_def)
  next
    case 4
    with a have o: "row t = x" and lt: "col t > y" by (simp_all add: ahead_def)
    from 4 cs traversal_lists [OF v] have e: "cpre @ y # csuf = [3, 2, 1, 0]" by simp
    have s: "sorted_wrt (>) (cpre @ y # csuf)" unfolding e by simp
    have m: "col t \<in> set (cpre @ y # csuf)" unfolding e using cin by auto
    from before_in_descending [OF s m lt] o b show ?thesis by (simp add: seen_def)
  qed
qed

lemma traversal_distinct:
  "legalVector v \<Longrightarrow> distinct (rows (buildTraversals (Vector v))) \<and> distinct (cols (buildTraversals (Vector v)))"
  by (simp add: traversal_lists)


lemma gridLookup_withinBounds:
  assumes "wfGrid g" "gridLookup g p = Some x"
  shows "withinBounds p"
  using assms by (auto simp: gridLookup_def wfGrid_iff withinBounds_def split: if_splits)

lemma targetsSeen_mono:
  assumes "targetsSeen S a" "\<And>p. S p \<Longrightarrow> S' p"
  shows "targetsSeen S' a"
  using assms by (auto simp: targetsSeen_def)

lemma moveCell_targetsSeen:
  assumes v: "legalVector v"
    and rs: "rows (buildTraversals (Vector v)) = rpre @ x # rsuf"
    and cs: "cols (buildTraversals (Vector v)) = cpre @ y # csuf"
    and inv: "targetsSeen (seen rpre x cpre) a"
    and mc: "moveCell (Vector v) x y a = Some b"
  shows "targetsSeen (seen rpre x (cpre @ [y])) b"
proof -
  let ?as = "animations (eng a)"
  have mono: "seen rpre x (cpre @ [y]) p" if "seen rpre x cpre p" for p
    using that by (auto simp: seen_def)
  from traversal_distinct [OF v] rs cs have "x \<notin> set rpre" "y \<notin> set cpre" by auto
  then have "\<not> seen rpre x cpre (x, y)" by (simp add: seen_def)
  with inv have src: "(x, y) \<notin> set (mergeTargets ?as)" by (auto simp: targetsSeen_def)
  from inv have wf: "wfGrid (grid (eng a))" and old: "\<forall>p \<in> set (mergeTargets ?as). seen rpre x cpre p"
    and nr: "\<not> reusedTarget {} ?as" by (simp_all add: targetsSeen_def)
  from inv moveCell_wf [OF mc] have wfb: "wfGrid (grid (eng b)) \<and> wfGrid (merged b)"
    by (simp add: targetsSeen_def)
  from mc show ?thesis
  proof (cases rule: moveCell_vector_cases)
    case (merge tv ps)
    from gridLookup_withinBounds [OF wf merge(3)] findFarthestPosition_ahead [OF merge(2) v]
    have "seen rpre x cpre (row (nextp ps), col (nextp ps))" by (intro ahead_seen [OF v rs cs])
    with old mono src nr wfb show ?thesis
      by (auto simp: targetsSeen_def merge(5) mergeTargets_append reusedTarget_append)
  next
    case (relocate tv ps)
    with old mono src nr wfb show ?thesis
      by (auto simp: targetsSeen_def mergeTargets_append reusedTarget_append)
  qed (use inv mono in \<open>auto intro: targetsSeen_mono\<close>)
qed

lemma scanGrid_no_reuse:
  assumes run: "scanGrid d s = Some sc" and d: "legalDirection d" and wf: "wfGrid (grid s)"
  shows "\<not> reusedTarget {} (animations (eng sc))"
proof -
  from legalDirection_vector [OF d] obtain v0 where v0: "getVector d = Vector v0"
    and v: "legalVector v0" by blast
  let ?v = "Vector v0"
  let ?rs = "rows (buildTraversals ?v)" and ?cs = "cols (buildTraversals ?v)"
  let ?P = "\<lambda>rpre. targetsSeen (\<lambda>p. fst p \<in> set rpre \<and> 0 \<le> snd p \<and> snd p < 4)"
  have "?P ?rs sc"
  proof (rule forEach_prefix_invariant [where P = ?P, OF scan_start [OF run, unfolded v0]])
    show "?P [] \<lparr>eng = saveGameState (s\<lparr>animations := []\<rparr>), moved = False,
            merged = map (\<lambda>r. map (\<lambda>c. False) [0..<gridSize]) [0..<gridSize]\<rparr>"
      using wf by (simp add: targetsSeen_def wfGrid_falseGrid)
  next
    fix rpre x rsuf a b
    assume rs: "?rs = rpre @ x # rsuf" and a: "?P rpre a" and row: "moveRow ?v ?cs x a = Some b"
    from row have inner: "forEach (\<lambda>c. moveCell ?v x c) ?cs a = Some b" by (simp add: moveRow_def)
    have "targetsSeen (seen rpre x ?cs) b"
    proof (rule forEach_prefix_invariant [where P = "\<lambda>cpre. targetsSeen (seen rpre x cpre)", OF inner])
      from a show "targetsSeen (seen rpre x []) a"
        by (rule targetsSeen_mono) (simp add: seen_def)
    next
      fix cpre y csuf p q
      assume "?cs = cpre @ y # csuf" "targetsSeen (seen rpre x cpre) p" "moveCell ?v x y p = Some q"
      with v rs show "targetsSeen (seen rpre x (cpre @ [y])) q"
        by (intro moveCell_targetsSeen [of v0 rpre x rsuf cpre y csuf p q])
    qed
    then show "?P (rpre @ [x]) b"
    proof (rule targetsSeen_mono)
      fix p assume "seen rpre x ?cs p"
      with traversal_lists [OF v] show "fst p \<in> set (rpre @ [x]) \<and> 0 \<le> snd p \<and> snd p < 4"
        by (auto simp: seen_def split: if_splits)
    qed
  qed
  then show ?thesis by (simp add: targetsSeen_def)
qed

text \<open>
  C2: in a grid with a row \<open>[2, 2, 2, 2]\<close>, the scan of \<^verbatim>\<open>move\<close> (before the random
  spawn) turns that row into \<open>[4, 4, _, _]\<close> for left and \<open>[_, _, 4, 4]\<close> for right, and
  likewise a column for up and down; exactly the two cells holding a 4 carry the merged
  mark, so two pairs merged and no merged tile took a further tile. In every scan the
  cells that receive a merge are pairwise distinct, and in a legal direction no tile
  leaves a cell that received a merge earlier in the scan: a tile produced by a merge
  is neither merged into nor moved again.
\<close>

theorem merge_once:
  assumes "wfGrid (grid s)"
  shows "(\<forall>r < gridSize. grid s ! r = [Some 2, Some 2, Some 2, Some 2] \<longrightarrow>
            (\<exists>sc. scanGrid ''left'' s = Some sc \<and>
                  grid (eng sc) ! r = [Some 4, Some 4, None, None] \<and>
                  merged sc ! r = [True, True, False, False]) \<and>
            (\<exists>sc. scanGrid ''right'' s = Some sc \<and>
                  grid (eng sc) ! r = [None, None, Some 4, Some 4] \<and>
                  merged sc ! r = [False, False, True, True])) \<and>
         (\<forall>c < gridSize. column (grid s) c = [Some 2, Some 2, Some 2, Some 2] \<longrightarrow>
            (\<exists>sc. scanGrid ''up'' s = Some sc \<and>
                  column (grid (eng sc)) c = [Some 4, Some 4, None, None] \<and>
                  column (merged sc) c = [True, True, False, False]) \<and>
            (\<exists>sc. scanGrid ''down'' s = Some sc \<and>
                  column (grid (eng sc)) c = [None, None, Some 4, Some 4] \<and>
                  column (merged sc) c = [False, False, True, True])) \<and>
         (\<forall>d sc. scanGrid d s = Some sc \<longrightarrow> distinct (mergeTargets (animations (eng sc)))) \<and>
         (\<forall>d sc. legalDirection d \<and> scanGrid d s = Some sc \<longrightarrow>
            \<not> reusedTarget {} (animations (eng sc)))"
proof -
  have rows: "(\<exists>sc. scanGrid ''left'' s = Some sc \<and>
                  grid (eng sc) ! r = [Some 4, Some 4, None, None] \<and>
                  merged sc ! r = [True, True, False, False]) \<and>
            (\<exists>sc. scanGrid ''right'' s = Some sc \<and>
                  grid (eng sc) ! r = [None, None, Some 4, Some 4] \<and>
                  merged sc ! r = [False, False, True, True])"
    if "r < gridSize" "grid s ! r = [Some 2, Some 2, Some 2, Some 2]" for r
    using scanGrid_total [of "''left''" s] scanGrid_total [of "''right''" s]
      scan_left [OF assms that] scan_right [OF assms that] by blast
  have cols: "(\<exists>sc. scanGrid ''up'' s = Some sc \<and>
                  column (grid (eng sc)) c = [Some 4, Some 4, None, None] \<and>
                  column (merged sc) c = [True, True, False, False]) \<and>
            (\<exists>sc. scanGrid ''down'' s = Some sc \<and>
                  column (grid (eng sc)) c = [None, None, Some 4, Some 4] \<and>
                  column (merged sc) c = [False, False, True, True])"
    if "c < gridSize" "column (grid s) c = [Some 2, Some 2, Some 2, Some 2]" for c
    using scanGrid_total [of "''up''" s] scanGrid_total [of "''down''" s]
      scan_up [OF assms that] scan_down [OF assms that] by blast
  have once: "distinct (mergeTargets (animations (eng sc)))" if "scanGrid d s = Some sc" for d sc
    using scanGrid_marksCover [OF that assms] by (simp add: marksCover_def)
  have never: "\<not> reusedTarget {} (animations (eng sc))"
    if "legalDirection d" "scanGrid d s = Some sc" for d sc
    using scanGrid_no_reuse [OF that(2,1) assms] .
  from rows cols once never show ?thesis by blast
qed

section \<open>Evaluation of concrete runs\<close>

text \<open>The definitions that a concrete call of \<^verbatim>\<open>move\<close> unfolds.\<close>

lemmas engine_eval = move_def scanGrid_def moveRow_def moveCell_def findFarthestPosition_def
  farthestLoop.simps withinBounds_def cellAvailable_def gridSize_def upt_4 getCell_def setCell_def
  getVector_def buildTraversals_def saveGameState_def takeSnapshot_def copyGrid_def gridLookup_def
  updateScore_def Let_def addRandomTile_def emptyCells_def checkGameState_def hasWon_def
  inheritedNames_def numberOf_rand isRandom_0 roundDouble_0 roundDouble_nine_tenths

lemma isRandom_examples: "isRandom (1 / 2)" "isRandom (1 / 4)"
  by (simp_all add: isRandom_def fp_eval)

lemma roundDouble_examples: "roundDouble (9 / 2) = 9 / 2"
  by (simp add: fp_eval)

text \<open>
  The sample play from a fresh game, six successful moves with one that shifts nothing
  before the last, leads to \<open>stuckGame\<close>: its only tiles fill the top row and no two
  neighbours are equal, so a move to the left or right shifts nothing.
\<close>

lemma stuckGame_reachable:
  "map_option (\<lambda>p. (map snd (fst p), snd p))
     (playMoves samplePlay (init 0 (rand 0, rand 0) (rand 0, rand 0) (gameOf rowGrid []))) =
   Some ([True, True, True, True, True, False, True], stuckGame)"
  by (simp add: samplePlay_def init_def resetGrid_def loadBestScore_def emptyGrid_def gameOf_def
      stuckGame_def topRow_def engine_eval)

text \<open>One more move to the left shifts nothing and costs the history its oldest snapshot.\<close>

lemma stalledPlay_result:
  "map_option (\<lambda>p. (map snd (fst p), snd p))
     (playMoves stalledPlay (init 0 (rand 0, rand 0) (rand 0, rand 0) (gameOf rowGrid []))) =
   Some ([True, True, True, True, True, False, True, False],
         stuckGame\<lparr>gameHistory := tl (gameHistory stuckGame), animations := []\<rparr>)"
  by (simp add: stalledPlay_def samplePlay_def init_def resetGrid_def loadBestScore_def
      emptyGrid_def gameOf_def stuckGame_def topRow_def engine_eval)

section \<open>Moves that shift nothing\<close>

text \<open>
  C1: a move that shifts nothing should leave score, history length, \<open>undoCount\<close> and grid
  unchanged, spawn nothing and return \<open>False\<close>. In \<open>stuckGame\<close>, reached by six successful
  moves, a move to the left returns \<open>False\<close> and keeps grid and score, but the history
  goes from five snapshots to four.
\<close>

theorem noop_move_drops_snapshot:
  "length (gameHistory stuckGame) = 5 \<and>
   move ''left'' (rand 0, rand 0) stuckGame =
     Some (False, stuckGame\<lparr>gameHistory := tl (gameHistory stuckGame), animations := []\<rparr>) \<and>
   length (gameHistory (stuckGame\<lparr>gameHistory := tl (gameHistory stuckGame), animations := []\<rparr>)) = 4"
  by (simp add: stuckGame_def topRow_def engine_eval)

section \<open>Directions outside the four legal values\<close>

text \<open>
  For a direction that is none of up, down, left and right, \<^verbatim>\<open>getVector\<close> returns an
  inherited property of the table or the zero vector. With the zero vector the neighbour
  of a tile in \<^verbatim>\<open>findFarthestPosition\<close> is the tile itself, so every tile is merged into
  its own cell and the cell is emptied.
\<close>

lemma tileSum_sum:
  "tileSum g = (\<Sum>p \<in> {0..<gridSize} \<times> {0..<gridSize}. tileValue (getCell g (fst p) (snd p)))"
  by (simp add: tileSum_def interv_sum_list_conv_sum_set_nat sum.cartesian_product case_prod_beta)

lemma tileSum_setCell:
  assumes "wfGrid g" "r < gridSize" "c < gridSize"
  shows "tileSum (setCell g r c x) + tileValue (getCell g r c) = tileSum g + tileValue x"
proof -
  let ?A = "{0..<gridSize} \<times> {0..<gridSize}"
  let ?f = "\<lambda>g p. tileValue (getCell g (fst p) (snd p))"
  have fin: "finite ?A" and mem: "(r, c) \<in> ?A" using assms by auto
  have rest: "sum (?f (setCell g r c x)) (?A - {(r, c)}) = sum (?f g) (?A - {(r, c)})"
    by (rule sum.cong) (auto simp: getCell_setCell_wf [OF assms])
  have "tileSum (setCell g r c x) = tileValue x + sum (?f (setCell g r c x)) (?A - {(r, c)})"
    unfolding tileSum_sum by (subst sum.remove [OF fin mem]) (simp add: getCell_setCell_wf [OF assms])
  moreover have "tileSum g = tileValue (getCell g r c) + sum (?f g) (?A - {(r, c)})"
    unfolding tileSum_sum by (subst sum.remove [OF fin mem]) simp
  ultimately show ?thesis using rest by simp
qed

lemma forEach_establish:
  assumes "forEach f xs s = Some s'" and "P s" and "y \<in> set xs"
    and keep: "\<And>x a b. x \<in> set xs \<Longrightarrow> P a \<Longrightarrow> f x a = Some b \<Longrightarrow> P b \<and> (Q a \<longrightarrow> Q b)"
    and est: "\<And>a b. P a \<Longrightarrow> f y a = Some b \<Longrightarrow> Q b"
  shows "P s' \<and> Q s'"
  using assms(1,2,3) keep
proof (induction xs arbitrary: s)
  case Nil
  then show ?case by simp
next
  case (Cons x xs)
  from Cons.prems(1) obtain b where b: "f x s = Some b" "forEach f xs b = Some s'"
    by (auto split: option.splits)
  from Cons.prems(4) [OF _ Cons.prems(2) b(1)] have pb: "P b" by simp
  have keep': "\<And>z a c. z \<in> set xs \<Longrightarrow> P a \<Longrightarrow> f z a = Some c \<Longrightarrow> P c \<and> (Q a \<longrightarrow> Q c)"
    using Cons.prems(4) by (meson list.set_intros(2))
  show ?case
  proof (cases "x = y")
    case True
    with est [OF Cons.prems(2)] b(1) have "Q b" by simp
    with pb have "P b \<and> Q b" by simp
    with b(2) show ?thesis
    proof (rule forEach_invariant [where P = "\<lambda>a. P a \<and> Q a"])
      fix z a c assume "z \<in> set xs" "P a \<and> Q a" "f z a = Some c"
      with keep' [of z a c] show "P c \<and> Q c" by simp
    qed
  next
    case False
    with Cons.prems(3) have "y \<in> set xs" by simp
    from Cons.IH [OF b(2) pb this keep'] show ?thesis .
  qed
qed


lemma gridLookup_cell:
  assumes "wfGrid g" "0 \<le> r" "r < 4" "0 \<le> c" "c < 4"
  shows "gridLookup g \<lparr>row = r, col = c\<rparr> = Some (getCell g (nat r) (nat c))"
  using assms by (auto simp: gridLookup_def getCell_def wfGrid_iff gridSize_def)

lemma zero_cell_merge:
  assumes "wfGrid (grid (eng a))" "0 \<le> r" "r < 4" "0 \<le> c" "c < 4"
    and "getCell (grid (eng a)) (nat r) (nat c) = Some tv" "\<not> merged a ! nat r ! nat c"
  shows "moveCell (Vector \<lparr>row = 0, col = 0\<rparr>) r c a =
     Some \<lparr>eng = (updateScore (tv * 2) ((eng a)\<lparr>grid :=
               setCell (setCell (grid (eng a)) (nat r) (nat c) (Some (tv * 2))) (nat r) (nat c) None\<rparr>))
             \<lparr>animations := animations (eng a) @ [MoveAnim r c r c tv, MergeAnim r c (tv * 2)]\<rparr>,
           moved = True, merged = setCell (merged a) (nat r) (nat c) True\<rparr>"
proof -
  from assms(6) have "\<not> cellAvailable (grid (eng a)) \<lparr>row = r, col = c\<rparr>"
    by (simp add: cellAvailable_def)
  then have f: "findFarthestPosition (grid (eng a)) \<lparr>row = r, col = c\<rparr> \<lparr>row = 0, col = 0\<rparr> =
      Some \<lparr>farthest = \<lparr>row = r, col = c\<rparr>, nextp = \<lparr>row = r, col = c\<rparr>\<rparr>"
    by (simp add: findFarthestPosition_def farthestLoop_occupied)
  from assms(6,7) show ?thesis
    by (simp add: moveCell_def f gridLookup_cell [OF assms(1-5)] Let_def)
qed

lemma zero_cell:
  assumes mc: "moveCell (Vector \<lparr>row = 0, col = 0\<rparr>) r c a = Some b"
    and rc: "0 \<le> r" "r < 4" "0 \<le> c" "c < 4" and inv: "wiped s a"
  shows "wiped s b \<and> getCell (grid (eng b)) (nat r) (nat c) = None \<and>
         (\<forall>r' < gridSize. \<forall>c' < gridSize.
            getCell (grid (eng a)) r' c' = None \<longrightarrow> getCell (grid (eng b)) r' c' = None)"
proof (cases "getCell (grid (eng a)) (nat r) (nat c)")
  case None
  with mc have "b = a" by (simp add: moveCell_def)
  with None inv show ?thesis by simp
next
  case (Some tv)
  let ?g = "grid (eng a)"
  let ?g1 = "setCell ?g (nat r) (nat c) (Some (tv * 2))"
  let ?g2 = "setCell ?g1 (nat r) (nat c) None"
  from inv have wf: "wfGrid ?g" "wfGrid (merged a)" by (simp_all add: wiped_def)
  from rc have b: "nat r < gridSize" "nat c < gridSize" by (simp_all add: gridSize_def)
  from inv b Some have nm: "\<not> merged a ! nat r ! nat c" by (auto simp: wiped_def)
  from zero_cell_merge [OF wf(1) rc Some nm] mc
  have eb: "grid (eng b) = ?g2" "score (eng b) = score (eng a) + tv * 2" "moved b"
    "merged b = setCell (merged a) (nat r) (nat c) True"
    by auto
  have wf1: "wfGrid ?g1" using wf(1) by (rule wfGrid_setCell)
  have c1: "getCell ?g1 (nat r) (nat c) = Some (tv * 2)"
    by (simp add: getCell_setCell_wf [OF wf(1) b])
  from tileSum_setCell [OF wf(1) b, of "Some (tv * 2)"] tileSum_setCell [OF wf1 b, of None] Some c1
  have ts: "tileSum ?g2 = tileSum ?g - tv" by (simp add: tileValue_def)
  from tileCount_setCell [OF wf(1) b, of "Some (tv * 2)"] tileCount_setCell [OF wf1 b, of None] Some c1
  have tc: "tileCount ?g2 + 1 = tileCount ?g" by (simp add: occ_def)
  have cells: "getCell ?g2 r' c' = (if r' = nat r \<and> c' = nat c then None else getCell ?g r' c')"
    for r' c'
    by (simp add: getCell_setCell_wf [OF wf1 b] getCell_setCell_wf [OF wf(1) b])
  have marks: "setCell (merged a) (nat r) (nat c) True ! r' ! c' =
      (if r' = nat r \<and> c' = nat c then True else merged a ! r' ! c')" for r' c'
    using wf(2) b by (intro nth_setCell) (simp_all add: wfGrid_iff)
  from inv have old: "\<forall>r' < gridSize. \<forall>c' < gridSize. merged a ! r' ! c' \<longrightarrow> getCell ?g r' c' = None"
    and sc: "score (eng a) + 2 * tileSum ?g = score s + 2 * tileSum (grid s)"
    and le: "tileCount ?g \<le> tileCount (grid s)"
    by (simp_all add: wiped_def)
  have "wiped s b"
    unfolding wiped_def eb
    using wf old sc le ts tc eb(3) by (simp add: wfGrid_setCell cells marks)
  moreover have "getCell (grid (eng b)) (nat r) (nat c) = None" by (simp add: eb cells)
  moreover have "\<forall>r' < gridSize. \<forall>c' < gridSize.
            getCell ?g r' c' = None \<longrightarrow> getCell (grid (eng b)) r' c' = None"
    by (simp add: eb cells)
  ultimately show ?thesis by simp
qed


lemma empty_grid_eq:
  assumes "wfGrid g" "\<forall>r < gridSize. \<forall>c < gridSize. getCell g r c = None"
  shows "g = emptyGrid"
proof (rule nth_equalityI)
  from assms(1) show "length g = length emptyGrid" by (simp add: wfGrid_iff emptyGrid_def)
next
  fix r assume "r < length g"
  with assms(1) have r: "r < gridSize" by (simp add: wfGrid_iff)
  show "g ! r = emptyGrid ! r"
  proof (rule nth_equalityI)
    from assms(1) r show "length (g ! r) = length (emptyGrid ! r)"
      by (simp add: wfGrid_iff emptyGrid_def)
  next
    fix c assume "c < length (g ! r)"
    with assms(1) r have c: "c < gridSize" by (simp add: wfGrid_iff)
    with assms(2) r show "g ! r ! c = emptyGrid ! r ! c" by (simp add: getCell_def emptyGrid_def)
  qed
qed

lemma emptyGrid_counts: "tileCount emptyGrid = 0" "tileSum emptyGrid = 0"
  by (simp_all add: tileCount_def tileSum_def emptyGrid_def getCell_def occ_def tileValue_def
      gridSize_def upt_4)

lemma zero_scan:
  assumes run: "scanGrid d s = Some sc" and v: "getVector d = Vector \<lparr>row = 0, col = 0\<rparr>"
    and wf: "wfGrid (grid s)"
  shows "grid (eng sc) = emptyGrid \<and> score (eng sc) = score s + 2 * tileSum (grid s) \<and>
         (moved sc \<longleftrightarrow> 0 < tileCount (grid s))"
proof -
  let ?v = "Vector \<lparr>row = 0, col = 0\<rparr>"
  let ?start = "\<lparr>eng = saveGameState (s\<lparr>animations := []\<rparr>), moved = False,
      merged = map (\<lambda>r. map (\<lambda>c. False) [0..<gridSize]) [0..<gridSize]\<rparr>"
  have tr: "rows (buildTraversals ?v) = [0, 1, 2, 3]" "cols (buildTraversals ?v) = [0, 1, 2, 3]"
    by (simp_all add: buildTraversals_def gridSize_def upt_4)
  from scan_start [OF run] have go: "forEach (moveRow ?v [0, 1, 2, 3]) [0, 1, 2, 3] ?start = Some sc"
    by (simp add: v tr)
  have start: "wiped s ?start"
    using wf by (simp add: wiped_def wfGrid_falseGrid)
  have cell: "wiped s b \<and> getCell (grid (eng b)) (nat r) (nat c) = None \<and>
      (getCell (grid (eng a)) r' c' = None \<longrightarrow> getCell (grid (eng b)) r' c' = None)"
    if "r \<in> set [0, 1, 2, 3]" "c \<in> set [0, 1, 2, 3]" "wiped s a" "moveCell ?v r c a = Some b"
      "r' < gridSize" "c' < gridSize" for r c a b r' c'
  proof -
    from that(1,2) have "0 \<le> r" "r < 4" "0 \<le> c" "c < 4" by auto
    from zero_cell [OF that(4) this that(3)] that(5,6) show ?thesis by simp
  qed
  have line: "wiped s b \<and> (getCell (grid (eng a)) r' c' = None \<longrightarrow> getCell (grid (eng b)) r' c' = None)"
    if "r \<in> set [0, 1, 2, 3]" "wiped s a" "moveRow ?v [0, 1, 2, 3] r a = Some b"
      "r' < gridSize" "c' < gridSize" for r a b r' c'
  proof -
    from that(3) have inner: "forEach (\<lambda>c. moveCell ?v r c) [0, 1, 2, 3] a = Some b"
      by (simp add: moveRow_def)
    show ?thesis
    proof (rule forEach_invariant [where P = "\<lambda>u. wiped s u \<and>
        (getCell (grid (eng a)) r' c' = None \<longrightarrow> getCell (grid (eng u)) r' c' = None)", OF inner])
      fix c p q
      assume "c \<in> set [0, 1, 2, 3]"
        "wiped s p \<and> (getCell (grid (eng a)) r' c' = None \<longrightarrow> getCell (grid (eng p)) r' c' = None)"
        "moveCell ?v r c p = Some q"
      with cell [OF that(1), of c p q r' c'] that(4,5)
      show "wiped s q \<and> (getCell (grid (eng a)) r' c' = None \<longrightarrow> getCell (grid (eng q)) r' c' = None)"
        by simp
    qed (use that(2) in simp)
  qed
  have gone: "wiped s sc \<and> getCell (grid (eng sc)) (nat r0) (nat c0) = None"
    if r0: "r0 \<in> set [0, 1, 2, 3]" and c0: "c0 \<in> set [0, 1, 2, 3]" for r0 c0 :: int
  proof (rule forEach_establish [where P = "wiped s", OF go start r0])
    fix x a b
    assume "x \<in> set [0, 1, 2, 3]" "wiped s a" "moveRow ?v [0, 1, 2, 3] x a = Some b"
    from line [OF this, of "nat r0" "nat c0"] r0 c0
    show "wiped s b \<and> (getCell (grid (eng a)) (nat r0) (nat c0) = None \<longrightarrow>
        getCell (grid (eng b)) (nat r0) (nat c0) = None)"
      by (auto simp: gridSize_def)
  next
    fix a b
    assume a: "wiped s a" and "moveRow ?v [0, 1, 2, 3] r0 a = Some b"
    then have inner: "forEach (\<lambda>c. moveCell ?v r0 c) [0, 1, 2, 3] a = Some b"
      by (simp add: moveRow_def)
    have "wiped s b \<and> getCell (grid (eng b)) (nat r0) (nat c0) = None"
    proof (rule forEach_establish [where P = "wiped s", OF inner a c0])
      fix x p q
      assume "x \<in> set [0, 1, 2, 3]" "wiped s p" "moveCell ?v r0 x p = Some q"
      from cell [OF r0 this, of "nat r0" "nat c0"] r0 c0
      show "wiped s q \<and> (getCell (grid (eng p)) (nat r0) (nat c0) = None \<longrightarrow>
          getCell (grid (eng q)) (nat r0) (nat c0) = None)"
        by (auto simp: gridSize_def)
    next
      fix p q
      assume "wiped s p" "moveCell ?v r0 c0 p = Some q"
      from cell [OF r0 c0 this, of 0 0] show "getCell (grid (eng q)) (nat r0) (nat c0) = None"
        by (simp add: gridSize_def)
    qed
    then show "getCell (grid (eng b)) (nat r0) (nat c0) = None" by simp
  qed
  from gone [of 0 0] have w: "wiped s sc" by simp
  have "getCell (grid (eng sc)) r c = None" if "r < gridSize" "c < gridSize" for r c
  proof -
    from that have "int r \<in> set [0, 1, 2, 3]" "int c \<in> set [0, 1, 2, 3]"
      by (auto simp: gridSize_def)
    from gone [OF this] show ?thesis by simp
  qed
  with w have "grid (eng sc) = emptyGrid" by (intro empty_grid_eq) (simp_all add: wiped_def)
  with w show ?thesis by (auto simp: wiped_def emptyGrid_counts)
qed

lemma forEach_skip: "(\<And>x a. f x a = Some a) \<Longrightarrow> forEach f xs s = Some s"
  by (induction xs) simp_all

lemma moveCell_Inherited: "moveCell Inherited r c a = Some a"
  by (cases "getCell (grid (eng a)) (nat r) (nat c)") (simp_all add: moveCell_def)

lemma inherited_scan:
  assumes "getVector d = Inherited"
  shows "scanGrid d s = Some \<lparr>eng = saveGameState (s\<lparr>animations := []\<rparr>), moved = False,
      merged = map (\<lambda>r. map (\<lambda>c. False) [0..<gridSize]) [0..<gridSize]\<rparr>"
proof -
  have "moveRow Inherited cs r a = Some a" for cs r a
    unfolding moveRow_def by (rule forEach_skip) (rule moveCell_Inherited)
  then show ?thesis by (simp add: scanGrid_def assms Let_def forEach_skip)
qed

lemma illegal_vector:
  assumes "\<not> legalDirection d"
  shows "getVector d = (if d \<in> set inheritedNames then Inherited else Vector \<lparr>row = 0, col = 0\<rparr>)"
proof -
  from assms have "map_of [(''up'', \<lparr>row = -1, col = 0\<rparr>), (''down'', \<lparr>row = 1, col = 0\<rparr>),
       (''left'', \<lparr>row = 0, col = -1\<rparr>), (''right'', \<lparr>row = 0, col = 1\<rparr>)] d = None"
    by (auto simp: legalDirection_def)
  then show ?thesis by (simp add: getVector_def)
qed

text \<open>
  C4: a direction outside the four legal values should be rejected without a change of
  grid, score or history. \<^verbatim>\<open>move\<close> does not reject it. For the name of an inherited
  property it takes the path of a move that shifts nothing: it returns \<open>False\<close> and keeps
  grid and score. For every other string it scans with the zero vector: the scan removes
  every tile and adds twice their sum to the score, and when the grid held a tile
  \<^verbatim>\<open>move\<close> returns \<open>True\<close>, has pushed a snapshot and has spawned a tile on the emptied
  grid.
\<close>

theorem illegal_direction_move:
  assumes "wfGrid (grid s)" and "\<not> legalDirection d"
  shows "(d \<in> set inheritedNames \<longrightarrow>
            getVector d = Inherited \<and>
            move d rn s =
              Some (False, (saveGameState (s\<lparr>animations := []\<rparr>))
                 \<lparr>gameHistory := (if length (gameHistory s) \<ge> 5 then tl (gameHistory s)
                                   else gameHistory s)\<rparr>)) \<and>
         (d \<notin> set inheritedNames \<longrightarrow>
            getVector d = Vector \<lparr>row = 0, col = 0\<rparr> \<and>
            (\<exists>sc. scanGrid d s = Some sc \<and> grid (eng sc) = emptyGrid \<and>
                  score (eng sc) = score s + 2 * tileSum (grid s) \<and>
                  (moved sc \<longleftrightarrow> 0 < tileCount (grid s))) \<and>
            (0 < tileCount (grid s) \<longrightarrow>
               (\<exists>s'. move d rn s = Some (True, s') \<and> tileCount (grid s') = 1 \<and>
                     score s' = score s + 2 * tileSum (grid s) \<and>
                     gameHistory s' =
                       (if length (gameHistory s) \<ge> 5 then tl (gameHistory s) else gameHistory s) @
                       [takeSnapshot s])))"
proof -
  note v = illegal_vector [OF assms(2)]
  have a: "getVector d = Inherited \<and>
            move d rn s =
              Some (False, (saveGameState (s\<lparr>animations := []\<rparr>))
                 \<lparr>gameHistory := (if length (gameHistory s) \<ge> 5 then tl (gameHistory s)
                                   else gameHistory s)\<rparr>)" if "d \<in> set inheritedNames"
  proof -
    from v that have i: "getVector d = Inherited" by simp
    from inherited_scan [OF i, of s] have "\<exists>s'. move d rn s = Some (False, s')"
      by (simp add: move_def)
    then obtain s' where m: "move d rn s = Some (False, s')" by blast
    from noop_move_effect [OF m] m i show ?thesis by simp
  qed
  have b: "getVector d = Vector \<lparr>row = 0, col = 0\<rparr> \<and>
            (\<exists>sc. scanGrid d s = Some sc \<and> grid (eng sc) = emptyGrid \<and>
                  score (eng sc) = score s + 2 * tileSum (grid s) \<and>
                  (moved sc \<longleftrightarrow> 0 < tileCount (grid s))) \<and>
            (0 < tileCount (grid s) \<longrightarrow>
               (\<exists>s'. move d rn s = Some (True, s') \<and> tileCount (grid s') = 1 \<and>
                     score s' = score s + 2 * tileSum (grid s) \<and>
                     gameHistory s' =
                       (if length (gameHistory s) \<ge> 5 then tl (gameHistory s) else gameHistory s) @
                       [takeSnapshot s]))" if "d \<notin> set inheritedNames"
  proof -
    from v that have z: "getVector d = Vector \<lparr>row = 0, col = 0\<rparr>" by simp
    from scanGrid_total [of d s] obtain sc where sc: "scanGrid d s = Some sc" by blast
    note zs = zero_scan [OF sc z assms(1)]
    have "\<exists>s'. move d rn s = Some (True, s') \<and> tileCount (grid s') = 1 \<and>
                     score s' = score s + 2 * tileSum (grid s) \<and>
                     gameHistory s' =
                       (if length (gameHistory s) \<ge> 5 then tl (gameHistory s) else gameHistory s) @
                       [takeSnapshot s]" if t: "0 < tileCount (grid s)"
    proof -
      from zs t have mv: "moved sc" by simp
      let ?s' = "checkGameState (snd (addRandomTile rn (eng sc)))"
      from sc mv have m: "move d rn s = Some (True, ?s')" by (simp add: move_def)
      from zs have e: "grid (eng sc) = emptyGrid" by simp
      have ne: "emptyCells (grid (eng sc)) \<noteq> []"
        unfolding e by (rule emptyCells_nonempty [of 0 0]) (simp_all add: gridSize_def emptyGrid_def getCell_def upt_4)
      have wf: "wfGrid (grid (eng sc))" unfolding e by (rule wfGrid_emptyGrid)
      from addRandomTile_spawn(2) [OF wf ne, of rn] e
      have tc: "tileCount (grid ?s') = 1" by (simp add: emptyGrid_counts)
      from zs have ss: "score ?s' = score s + 2 * tileSum (grid s)" by simp
      note gh = gameHistory_move_success(1) [OF m]
      from m tc ss gh show ?thesis by (intro exI [of _ ?s']) simp
    qed
    then have p3: "0 < tileCount (grid s) \<longrightarrow>
               (\<exists>s'. move d rn s = Some (True, s') \<and> tileCount (grid s') = 1 \<and>
                     score s' = score s + 2 * tileSum (grid s) \<and>
                     gameHistory s' =
                       (if length (gameHistory s) \<ge> 5 then tl (gameHistory s) else gameHistory s) @
                       [takeSnapshot s])" by (rule impI)
    from sc zs have p2: "\<exists>sc. scanGrid d s = Some sc \<and> grid (eng sc) = emptyGrid \<and>
                  score (eng sc) = score s + 2 * tileSum (grid s) \<and>
                  (moved sc \<longleftrightarrow> 0 < tileCount (grid s))" by (intro exI [of _ sc]) simp
    from z p2 p3 show ?thesis by (intro conjI)
  qed
  from a have a': "d \<in> set inheritedNames \<longrightarrow>
            getVector d = Inherited \<and>
            move d rn s =
              Some (False, (saveGameState (s\<lparr>animations := []\<rparr>))
                 \<lparr>gameHistory := (if length (gameHistory s) \<ge> 5 then tl (gameHistory s)
                                   else gameHistory s)\<rparr>)" by (rule impI)
  from b have b': "d \<notin> set inheritedNames \<longrightarrow>
            getVector d = Vector \<lparr>row = 0, col = 0\<rparr> \<and>
            (\<exists>sc. scanGrid d s = Some sc \<and> grid (eng sc) = emptyGrid \<and>
                  score (eng sc) = score s + 2 * tileSum (grid s) \<and>
                  (moved sc \<longleftrightarrow> 0 < tileCount (grid s))) \<and>
            (0 < tileCount (grid s) \<longrightarrow>
               (\<exists>s'. move d rn s = Some (True, s') \<and> tileCount (grid s') = 1 \<and>
                     score s' = score s + 2 * tileSum (grid s) \<and>
                     gameHistory s' =
                       (if length (gameHistory s) \<ge> 5 then tl (gameHistory s) else gameHistory s) @
                       [takeSnapshot s]))" by (rule impI)
  from a' b' show ?thesis by (rule conjI)
qed

text \<open>The call \<^verbatim>\<open>move('ArrowLeft')\<close> on a grid of seven tiles, in full.\<close>

lemma move_ArrowLeft:
  "\<not> legalDirection ''ArrowLeft'' \<and>
   move ''ArrowLeft'' (rand 0, rand 0) (gameOf rowGrid []) =
     Some (True,
       \<lparr>grid = topRow [Some 2, None, None, None], score = 36, bestScore = 36, won = False,
        keepPlaying = False, gameHistory = [snapOf rowGrid], undoCount = 5,
        animations =
          [MoveAnim 0 0 0 0 2, MergeAnim 0 0 4, MoveAnim 0 1 0 1 2, MergeAnim 0 1 4,
           MoveAnim 0 2 0 2 2, MergeAnim 0 2 4, MoveAnim 0 3 0 3 2, MergeAnim 0 3 4,
           MoveAnim 1 1 1 1 4, MergeAnim 1 1 8, MoveAnim 1 3 1 3 4, MergeAnim 1 3 8,
           MoveAnim 3 0 3 0 2, MergeAnim 3 0 4]\<rparr>) \<and>
   topRow [Some 2, None, None, None] \<noteq> grid (gameOf rowGrid []) \<and>
   36 \<noteq> score (gameOf rowGrid []) \<and>
   [snapOf rowGrid] \<noteq> gameHistory (gameOf rowGrid [])"
  by (simp add: legalDirection_def gameOf_def snapOf_def rowGrid_def topRow_def engine_eval)

section \<open>The theorems at concrete inputs\<close>

theorem illegal_direction_move_witness:
  "\<not> legalDirection ''ArrowLeft'' \<and> ''ArrowLeft'' \<notin> set inheritedNames \<and>
   tileCount rowGrid = 7 \<and> tileSum rowGrid = 18 \<and>
   (\<exists>sc. scanGrid ''ArrowLeft'' (gameOf rowGrid []) = Some sc \<and> grid (eng sc) = emptyGrid \<and>
         score (eng sc) = 36 \<and> moved sc) \<and>
   (\<exists>s'. move ''ArrowLeft'' (rand 0, rand 0) (gameOf rowGrid []) = Some (True, s') \<and>
         tileCount (grid s') = 1 \<and> score s' = 36 \<and> gameHistory s' = [snapOf rowGrid]) \<and>
   \<not> legalDirection ''constructor'' \<and> ''constructor'' \<in> set inheritedNames \<and>
   move ''constructor'' (rand 0, rand 0) (gameOf rowGrid []) = Some (False, gameOf rowGrid [])"
proof -
  let ?s = "gameOf rowGrid []"
  have wf: "wfGrid (grid ?s)"
    by (simp add: gameOf_def rowGrid_def wfGrid_iff gridSize_def nth_Cons')
  have a: "\<not> legalDirection ''ArrowLeft''" "''ArrowLeft'' \<notin> set inheritedNames"
    and c: "\<not> legalDirection ''constructor''" "''constructor'' \<in> set inheritedNames"
    by (simp_all add: legalDirection_def inheritedNames_def)
  have t: "tileCount (grid ?s) = 7" "tileSum (grid ?s) = 18" "score ?s = 0"
    "gameHistory ?s = []" "takeSnapshot ?s = snapOf rowGrid"
    by (simp_all add: tileCount_def tileSum_def occ_def tileValue_def rowGrid_def gameOf_def
        getCell_def gridSize_def upt_4 takeSnapshot_def copyGrid_def snapOf_def)
  from illegal_direction_move [OF wf a(1), of "(rand 0, rand 0)"] a(2) t
  have al: "(\<exists>sc. scanGrid ''ArrowLeft'' ?s = Some sc \<and> grid (eng sc) = emptyGrid \<and>
         score (eng sc) = 36 \<and> moved sc)"
    "(\<exists>s'. move ''ArrowLeft'' (rand 0, rand 0) ?s = Some (True, s') \<and>
         tileCount (grid s') = 1 \<and> score s' = 36 \<and> gameHistory s' = [snapOf rowGrid])"
    by simp_all
  from illegal_direction_move [OF wf c(1), of "(rand 0, rand 0)"] c(2)
  have co: "move ''constructor'' (rand 0, rand 0) ?s = Some (False, ?s)"
    by (simp add: gameOf_def saveGameState_def Let_def)
  from t have t': "tileCount rowGrid = 7" "tileSum rowGrid = 18" by (simp_all add: gameOf_def)
  from a c t' al co show ?thesis by (intro conjI)
qed

theorem move_undo_roundtrip_witness:
  "\<exists>s'. move ''left'' (rand (1 / 2), rand (1 / 4)) (gameOf rowGrid []) = Some (True, s') \<and>
     (\<exists>s''. undo s' = (True, s'') \<and> grid s'' = rowGrid \<and> score s'' = 0 \<and> \<not> won s'' \<and>
            \<not> keepPlaying s'' \<and> undoCount s'' = 4)"
proof -
  obtain s' where mv: "move ''left'' (rand (1 / 2), rand (1 / 4)) (gameOf rowGrid []) = Some (True, s')"
    by (simp add: gameOf_def rowGrid_def engine_eval isRandom_examples roundDouble_examples)
  have wf: "wfGrid (grid (gameOf rowGrid []))"
    by (simp add: gameOf_def rowGrid_def wfGrid_iff gridSize_def nth_Cons')
  have u: "0 < undoCount (gameOf rowGrid [])" by (simp add: gameOf_def)
  have l: "legalDirection ''left''" by (simp add: legalDirection_def)
  from move_undo_roundtrip [OF wf u l mv] mv show ?thesis by (simp add: gameOf_def)
qed

theorem successful_move_spawns_witness:
  "\<exists>s' sc. move ''left'' (rand (1 / 2), rand (1 / 4)) (gameOf rowGrid []) = Some (True, s') \<and>
     scanGrid ''left'' (gameOf rowGrid []) = Some sc \<and> moved sc \<and>
     emptyCells (grid (eng sc)) \<noteq> [] \<and> fst (addRandomTile (rand (1 / 2), rand (1 / 4)) (eng sc)) \<and>
     tileCount (grid s') = tileCount (grid (eng sc)) + 1"
proof -
  obtain s' where mv: "move ''left'' (rand (1 / 2), rand (1 / 4)) (gameOf rowGrid []) = Some (True, s')"
    by (simp add: gameOf_def rowGrid_def engine_eval isRandom_examples roundDouble_examples)
  have wf: "wfGrid (grid (gameOf rowGrid []))"
    by (simp add: gameOf_def rowGrid_def wfGrid_iff gridSize_def nth_Cons')
  have l: "legalDirection ''left''" by (simp add: legalDirection_def)
  from successful_move_spawns [OF wf l mv] mv show ?thesis by blast
qed

theorem tile_conservation_witness:
  "\<exists>s'. move ''left'' (rand (1 / 2), rand (1 / 4)) (gameOf rowGrid []) = Some (True, s') \<and>
     mergeCount (animations s') = 3 \<and> tileCount rowGrid = 7 \<and> tileCount (grid s') = 5"
proof -
  obtain s' where mv: "move ''left'' (rand (1 / 2), rand (1 / 4)) (gameOf rowGrid []) = Some (True, s')"
    and m: "mergeCount (animations s') = 3"
    by (simp add: gameOf_def rowGrid_def engine_eval isRandom_examples roundDouble_examples)
  have wf: "wfGrid (grid (gameOf rowGrid []))"
    by (simp add: gameOf_def rowGrid_def wfGrid_iff gridSize_def nth_Cons')
  have l: "legalDirection ''left''" by (simp add: legalDirection_def)
  have t: "tileCount rowGrid = 7"
    by (simp add: tileCount_def occ_def rowGrid_def getCell_def gridSize_def upt_4)
  from tile_conservation [OF wf l mv] mv m t show ?thesis by (simp add: gameOf_def)
qed

lemma example_wf:
  "wfGrid (grid (gameOf rowGrid []))" "wfGrid (grid (gameOf fullGrid []))"
  "wfGrid (grid (gameOf gapGrid []))"
  by (simp_all add: gameOf_def rowGrid_def fullGrid_def gapGrid_def wfGrid_iff gridSize_def
      nth_Cons')

lemma example_emptyCells:
  "emptyCells rowGrid =
      [\<lparr>row = 1, col = 0\<rparr>, \<lparr>row = 1, col = 2\<rparr>, \<lparr>row = 2, col = 0\<rparr>, \<lparr>row = 2, col = 1\<rparr>,
       \<lparr>row = 2, col = 2\<rparr>, \<lparr>row = 2, col = 3\<rparr>, \<lparr>row = 3, col = 1\<rparr>, \<lparr>row = 3, col = 2\<rparr>,
       \<lparr>row = 3, col = 3\<rparr>]"
  "emptyCells gapGrid = [\<lparr>row = 0, col = 0\<rparr>, \<lparr>row = 1, col = 1\<rparr>, \<lparr>row = 2, col = 2\<rparr>]"
  "emptyCells fullGrid = []"
  by (simp_all add: emptyCells_def rowGrid_def gapGrid_def fullGrid_def getCell_def gridSize_def
      upt_4)

lemma example_numbers:
  "numberOf (rand (1 / 2)) = 1 / 2" "numberOf (rand (1 / 4)) = 1 / 4"
  "numberOf twoThirds = 6004799503160661 / 9007199254740992"
  by (simp_all add: twoThirds_def numberOf_rand isRandom_def fp_eval)

lemma example_rounding:
  "nat \<lfloor>roundDouble (18014398509481983 / 9007199254740992)\<rfloor> = 2"
  by (simp add: fp_eval)

theorem addRandomTile_spec_witness:
  "length (emptyCells rowGrid) = 9 \<and> numberOf (rand (1 / 2)) * 9 = 9 / 2 \<and>
   fst (addRandomTile (rand (1 / 2), rand (1 / 4)) (gameOf rowGrid [])) \<and>
   nat \<lfloor>roundDouble (9 / 2)\<rfloor> = 4 \<and> emptyCells rowGrid ! 4 = \<lparr>row = 2, col = 2\<rparr> \<and>
   getCell (grid (snd (addRandomTile (rand (1 / 2), rand (1 / 4)) (gameOf rowGrid [])))) 2 2 =
     Some 2 \<and>
   getCell (grid (snd (addRandomTile (rand (1 / 2), rand (1 / 4)) (gameOf rowGrid [])))) 2 3 =
     None \<and>
   length (emptyCells gapGrid) = 3 \<and> numberOf twoThirds * 3 = 2 - 1 / 2 ^ 53 \<and>
   nat \<lfloor>roundDouble (2 - 1 / 2 ^ 53)\<rfloor> = 2 \<and>
   addRandomTile (twoThirds, rand (1 / 4)) (gameOf gapGrid []) =
     (True, gameOf (setCell gapGrid 2 2 (Some 2)) []) \<and>
   getCell (grid (snd (addRandomTile (twoThirds, rand (1 / 4)) (gameOf gapGrid [])))) 2 2 =
     Some 2 \<and>
   2 - 1 / 2 ^ 49 < numberOf twoThirds * 3 \<and>
   emptyCells fullGrid = [] \<and>
   addRandomTile (rand (1 / 2), rand (1 / 4)) (gameOf fullGrid []) = (False, gameOf fullGrid [])"
proof -
  let ?s = "gameOf rowGrid []" and ?t = "gameOf gapGrid []"
  note ex = example_emptyCells example_numbers example_rounding
  have ne: "emptyCells (grid ?s) \<noteq> []" "emptyCells (grid ?t) \<noteq> []"
    by (simp_all add: gameOf_def ex)
  from addRandomTile_spec [OF example_wf(1), of "rand (1 / 2)" "rand (1 / 4)"] ne(1)
  have row: "let es = emptyCells (grid ?s); n = length es;
         x = numberOf (rand (1 / 2)) * real n; i = nat \<lfloor>roundDouble x\<rfloor>; p = es ! i;
         v = if numberOf (rand (1 / 4)) < 9 / 10 then 2 else 4;
         s' = snd (addRandomTile (rand (1 / 2), rand (1 / 4)) ?s)
     in fst (addRandomTile (rand (1 / 2), rand (1 / 4)) ?s) \<and>
        (\<forall>j<n. (real j \<le> x \<and> x \<le> real j + 1 - 1 / 2 ^ 49 \<longrightarrow> i = j)) \<and>
        (\<forall>r<gridSize. \<forall>c<gridSize.
            getCell (grid s') r c =
              (if int r = row p \<and> int c = col p then Some v else getCell (grid ?s) r c))"
    by (simp add: Let_def)
  then have r1: "fst (addRandomTile (rand (1 / 2), rand (1 / 4)) ?s)"
    and r2: "\<forall>j < 9. (real j \<le> 9 / 2 \<and> 9 / 2 \<le> real j + 1 - 1 / 2 ^ 49 \<longrightarrow>
                       nat \<lfloor>roundDouble (9 / 2)\<rfloor> = j)"
    by (simp_all add: Let_def gameOf_def ex)
  from r2 [rule_format, of 4] have i: "nat \<lfloor>roundDouble (9 / 2)\<rfloor> = 4" by simp
  from row have r3: "\<forall>r<gridSize. \<forall>c<gridSize.
      getCell (grid (snd (addRandomTile (rand (1 / 2), rand (1 / 4)) ?s))) r c =
        (if int r = 2 \<and> int c = 2 then Some 2 else getCell rowGrid r c)"
    by (simp add: Let_def gameOf_def ex i)
  from r3 [rule_format, of 2 2] r3 [rule_format, of 2 3]
  have r4: "getCell (grid (snd (addRandomTile (rand (1 / 2), rand (1 / 4)) ?s))) 2 2 = Some 2"
    "getCell (grid (snd (addRandomTile (rand (1 / 2), rand (1 / 4)) ?s))) 2 3 = None"
    by (simp_all add: gridSize_def rowGrid_def getCell_def)
  from addRandomTile_spec [OF example_wf(3), of twoThirds "rand (1 / 4)"] ne(2)
  have gap: "let es = emptyCells (grid ?t); n = length es;
         x = numberOf twoThirds * real n; i = nat \<lfloor>roundDouble x\<rfloor>; p = es ! i;
         v = if numberOf (rand (1 / 4)) < 9 / 10 then 2 else 4;
         s' = snd (addRandomTile (twoThirds, rand (1 / 4)) ?t)
     in (\<forall>j<n. (i = j \<longrightarrow> real j - 1 / 2 ^ 49 < x \<and> x < real j + 1)) \<and>
        (\<forall>r<gridSize. \<forall>c<gridSize.
            getCell (grid s') r c =
              (if int r = row p \<and> int c = col p then Some v else getCell (grid ?t) r c))"
    by (simp add: Let_def)
  then have g1: "\<forall>j<3. (2 = j \<longrightarrow>
        real j - 1 / 2 ^ 49 < 6004799503160661 / 9007199254740992 * 3 \<and>
        6004799503160661 / 9007199254740992 * 3 < real j + 1)"
    and g2: "\<forall>r<gridSize. \<forall>c<gridSize.
       getCell (grid (snd (addRandomTile (twoThirds, rand (1 / 4)) ?t))) r c =
         (if int r = 2 \<and> int c = 2 then Some 2 else getCell gapGrid r c)"
    by (simp_all add: Let_def gameOf_def ex)
  from g1 [rule_format, of 2] have g3: "2 - 1 / 2 ^ 49 < numberOf twoThirds * 3"
    by (simp add: ex)
  from g2 [rule_format, of 2 2]
  have g4: "getCell (grid (snd (addRandomTile (twoThirds, rand (1 / 4)) ?t))) 2 2 = Some 2"
    by (simp add: gridSize_def)
  have g5: "addRandomTile (twoThirds, rand (1 / 4)) ?t =
      (True, gameOf (setCell gapGrid 2 2 (Some 2)) [])"
    by (simp add: addRandomTile_def ex roundDouble_nine_tenths gameOf_def Let_def)
  have e: "emptyCells (grid (gameOf fullGrid [])) = []" by (simp add: gameOf_def ex)
  from addRandomTile_spec [OF example_wf(2), of "rand (1 / 2)" "rand (1 / 4)"] e
  have f: "addRandomTile (rand (1 / 2), rand (1 / 4)) (gameOf fullGrid []) =
      (False, gameOf fullGrid [])" by blast
  have n: "length (emptyCells rowGrid) = 9" "emptyCells rowGrid ! 4 = \<lparr>row = 2, col = 2\<rparr>"
    "length (emptyCells gapGrid) = 3" "emptyCells fullGrid = []"
    "numberOf (rand (1 / 2)) * 9 = 9 / 2" "numberOf twoThirds * 3 = 2 - 1 / 2 ^ 53"
    "nat \<lfloor>roundDouble (2 - 1 / 2 ^ 53)\<rfloor> = 2"
    by (simp_all add: ex)
  show ?thesis
    apply (intro conjI)
    using n r1 i r4 g3 g4 g5 f by blast+
qed

theorem history_bound_witness:
  "(\<exists>tr. playMoves samplePlay (init 0 (rand 0, rand 0) (rand 0, rand 0) (gameOf rowGrid [])) =
           Some (tr, stuckGame) \<and>
         map snd tr = [True, True, True, True, True, False, True] \<and>
         length (successes tr) = 6 \<and> length (gameHistory stuckGame) = 5 \<and>
         sgrid (hd (gameHistory stuckGame)) = grid (successes tr ! 1)) \<and>
   (\<exists>tr t. playMoves stalledPlay (init 0 (rand 0, rand 0) (rand 0, rand 0) (gameOf rowGrid [])) =
           Some (tr, t) \<and>
         map snd tr = [True, True, True, True, True, False, True, False] \<and>
         length (successes tr) = 6 \<and> length (gameHistory t) = 4 \<and>
         sgrid (hd (gameHistory t)) = grid (successes tr ! 2))"
proof -
  let ?i = "init 0 (rand 0, rand 0) (rand 0, rand 0) (gameOf rowGrid [])"
  have n: "length (successes tr) = length (filter id (map snd tr))" for tr :: "(game \<times> bool) list"
    by (simp add: successes_def filter_map comp_def)
  from stuckGame_reachable obtain tr where
    tr: "playMoves samplePlay ?i = Some (tr, stuckGame)"
    and res: "map snd tr = [True, True, True, True, True, False, True]" by auto
  from res have "tr \<noteq> []" by auto
  moreover from res have "map snd tr \<noteq> [] \<and> last (map snd tr)" by simp
  ultimately have la: "snd (last tr)" by (simp add: last_map)
  from n [of tr] res have l: "length (successes tr) = 6" by simp
  then have "5 < length (successes tr)" by simp
  from history_bound [OF tr this] la
  have "length (gameHistory stuckGame) = 5 \<and>
      sgrid (hd (gameHistory stuckGame)) = grid (successes tr ! (length (successes tr) - 5))"
    by blast
  with l have "length (gameHistory stuckGame) = 5 \<and>
      sgrid (hd (gameHistory stuckGame)) = grid (successes tr ! 1)" by simp
  with tr res l have first: "\<exists>tr. playMoves samplePlay ?i = Some (tr, stuckGame) \<and>
         map snd tr = [True, True, True, True, True, False, True] \<and>
         length (successes tr) = 6 \<and> length (gameHistory stuckGame) = 5 \<and>
         sgrid (hd (gameHistory stuckGame)) = grid (successes tr ! 1)"
    by (intro exI [of _ tr]) simp
  from stalledPlay_result obtain tr' t where
    tr': "playMoves stalledPlay ?i = Some (tr', t)"
    and res': "map snd tr' = [True, True, True, True, True, False, True, False]" by auto
  from res' have "tr' \<noteq> []" by auto
  moreover from res' have "map snd tr' \<noteq> [] \<and> \<not> last (map snd tr')" by simp
  ultimately have la': "\<not> snd (last tr')" by (simp add: last_map)
  from n [of tr'] res' have l': "length (successes tr') = 6" by simp
  then have "5 < length (successes tr')" by simp
  from history_bound [OF tr' this] la'
  have "length (gameHistory t) = 4 \<and>
      sgrid (hd (gameHistory t)) = grid (successes tr' ! (length (successes tr') - 4))"
    by blast
  with l' have "length (gameHistory t) = 4 \<and>
      sgrid (hd (gameHistory t)) = grid (successes tr' ! 2)" by simp
  with tr' res' l' have "\<exists>tr t. playMoves stalledPlay ?i = Some (tr, t) \<and>
         map snd tr = [True, True, True, True, True, False, True, False] \<and>
         length (successes tr) = 6 \<and> length (gameHistory t) = 4 \<and>
         sgrid (hd (gameHistory t)) = grid (successes tr ! 2)"
    by (intro exI [of _ tr'] exI [of _ t]) simp
  with first show ?thesis by (rule conjI)
qed

theorem merge_once_witness:
  "(\<exists>sc. scanGrid ''left'' (gameOf rowGrid []) = Some sc \<and>
         grid (eng sc) ! 0 = [Some 4, Some 4, None, None]) \<and>
   (\<exists>sc. scanGrid ''right'' (gameOf rowGrid []) = Some sc \<and>
         grid (eng sc) ! 0 = [None, None, Some 4, Some 4]) \<and>
   (\<exists>sc. scanGrid ''up'' (gameOf colGrid []) = Some sc \<and>
         column (grid (eng sc)) 0 = [Some 4, Some 4, None, None]) \<and>
   (\<exists>sc. scanGrid ''down'' (gameOf colGrid []) = Some sc \<and>
         column (grid (eng sc)) 0 = [None, None, Some 4, Some 4])"
proof -
  have wf: "wfGrid (grid (gameOf rowGrid []))" "wfGrid (grid (gameOf colGrid []))"
    by (simp_all add: gameOf_def rowGrid_def colGrid_def wfGrid_iff gridSize_def nth_Cons')
  have r: "0 < gridSize" "grid (gameOf rowGrid []) ! 0 = [Some 2, Some 2, Some 2, Some 2]"
    by (simp_all add: gameOf_def rowGrid_def gridSize_def)
  have c: "column (grid (gameOf colGrid [])) 0 = [Some 2, Some 2, Some 2, Some 2]"
    by (simp add: gameOf_def colGrid_def column_def)
  from merge_once [OF wf(1)] r have "(\<exists>sc. scanGrid ''left'' (gameOf rowGrid []) = Some sc \<and>
                  grid (eng sc) ! 0 = [Some 4, Some 4, None, None] \<and>
                  merged sc ! 0 = [True, True, False, False]) \<and>
            (\<exists>sc. scanGrid ''right'' (gameOf rowGrid []) = Some sc \<and>
                  grid (eng sc) ! 0 = [None, None, Some 4, Some 4] \<and>
                  merged sc ! 0 = [False, False, True, True])" by blast
  moreover from merge_once [OF wf(2)] r(1) c have
    "(\<exists>sc. scanGrid ''up'' (gameOf colGrid []) = Some sc \<and>
                  column (grid (eng sc)) 0 = [Some 4, Some 4, None, None] \<and>
                  column (merged sc) 0 = [True, True, False, False]) \<and>
            (\<exists>sc. scanGrid ''down'' (gameOf colGrid []) = Some sc \<and>
                  column (grid (eng sc)) 0 = [None, None, Some 4, Some 4] \<and>
                  column (merged sc) 0 = [False, False, True, True])" by blast
  ultimately show ?thesis by blast
qed

end
